theory Spec2Isabelle
  imports Complex_Main
begin

section \<open>JavaScript strings and numbers\<close>

text \<open>
  Strings are modelled as \<^typ>\<open>string\<close>. The model reads them as ASCII text: case
  mapping touches the letters a-z only, and white space is the ASCII white space.

  A JavaScript number is either \<open>NaN\<close> or a finite value. Finite values are modelled as
  reals, so \<open>/ 255\<close> and \<open>* 255\<close> are exact here (binary rounding of doubles is not
  modelled; infinities never arise in this program). A number that is known to be an
  integer or \<open>NaN\<close> (the result of \<open>parseInt\<close> or \<open>Math.round\<close>) is an
  \<^typ>\<open>int option\<close>, with \<open>None\<close> for \<open>NaN\<close>.
\<close>

datatype jsnum = NaN | Num real

definition toUpperCase_char :: "char \<Rightarrow> char" where
  "toUpperCase_char c =
     (let n = (of_char c :: nat) in if 97 \<le> n \<and> n \<le> 122 then char_of (n - 32) else c)"

definition toUpperCase :: "string \<Rightarrow> string" where
  "toUpperCase s = map toUpperCase_char s"

definition toLowerCase_char :: "char \<Rightarrow> char" where
  "toLowerCase_char c =
     (let n = (of_char c :: nat) in if 65 \<le> n \<and> n \<le> 90 then char_of (n + 32) else c)"

text \<open>\<open>s.substring(a, b)\<close> for \<open>0 \<le> a \<le> b\<close>; both ends are clamped to the length.\<close>

definition substring :: "string \<Rightarrow> nat \<Rightarrow> nat \<Rightarrow> string" where
  "substring s a b = take (b - a) (drop a s)"

text \<open>\<open>s.repeat(n)\<close>\<close>

definition repeat :: "string \<Rightarrow> nat \<Rightarrow> string" where
  "repeat s n = concat (replicate n s)"

text \<open>\<open>s.padStart(n, c)\<close> with a one-character filler.\<close>

definition padStart :: "string \<Rightarrow> nat \<Rightarrow> char \<Rightarrow> string" where
  "padStart s n c = replicate (n - length s) c @ s"

text \<open>\<open>s.replace(/^#/, '')\<close>: one leading hash sign is removed.\<close>

definition strip_hash :: "string \<Rightarrow> string" where
  "strip_hash s = (case s of [] \<Rightarrow> [] | c # cs \<Rightarrow> if c = CHR ''#'' then cs else s)"

definition isWhiteSpace :: "char \<Rightarrow> bool" where
  "isWhiteSpace c = (let n = (of_char c :: nat) in n = 32 \<or> (9 \<le> n \<and> n \<le> 13))"

text \<open>\<open>s.trim()\<close>\<close>

definition trim :: "string \<Rightarrow> string" where
  "trim s = rev (dropWhile isWhiteSpace (rev (dropWhile isWhiteSpace s)))"

text \<open>The value of a character as a digit in the given radix, if it is one.\<close>

definition radix_digit :: "nat \<Rightarrow> char \<Rightarrow> nat option" where
  "radix_digit radix c =
     (let n = (of_char c :: nat);
          v = (if 48 \<le> n \<and> n \<le> 57 then Some (n - 48)
               else if 65 \<le> n \<and> n \<le> 90 then Some (n - 55)
               else if 97 \<le> n \<and> n \<le> 122 then Some (n - 87)
               else None)
      in case v of None \<Rightarrow> None | Some d \<Rightarrow> if d < radix then Some d else None)"

definition digits_value :: "nat \<Rightarrow> string \<Rightarrow> nat" where
  "digits_value radix z =
     foldl (\<lambda>acc c. acc * radix + (case radix_digit radix c of None \<Rightarrow> 0 | Some d \<Rightarrow> d)) 0 z"

text \<open>
  \<open>parseInt(str, radix)\<close> for radix 10 or 16, following ECMAScript: leading white space
  is skipped, one sign is read, for radix 16 a prefix \<open>0x\<close> or \<open>0X\<close> is dropped, and
  the longest run of digits is converted. An empty run gives \<open>NaN\<close>.
\<close>

definition parseInt :: "string \<Rightarrow> nat \<Rightarrow> int option" where
  "parseInt str radix =
     (let s0 = dropWhile isWhiteSpace str;
          sign = (if s0 \<noteq> [] \<and> hd s0 = CHR ''-'' then - 1 else (1 :: int));
          s1 = (if s0 \<noteq> [] \<and> (hd s0 = CHR ''+'' \<or> hd s0 = CHR ''-'') then tl s0 else s0);
          s2 = (if radix = 16 \<and> (take 2 s1 = ''0x'' \<or> take 2 s1 = ''0X'') then drop 2 s1 else s1);
          z = takeWhile (\<lambda>c. radix_digit radix c \<noteq> None) s2
      in if z = [] then None else Some (sign * int (digits_value radix z)))"

definition digit_char :: "nat \<Rightarrow> char" where
  "digit_char d = (if d < 10 then char_of (48 + d) else char_of (87 + d))"

function radix_digits :: "nat \<Rightarrow> nat \<Rightarrow> string" where
  "radix_digits radix n =
     (if n < radix \<or> radix < 2 then [digit_char n]
      else radix_digits radix (n div radix) @ [digit_char (n mod radix)])"
  by pat_completeness auto
termination
  by (relation "measure (\<lambda>(radix, n). n)") auto

text \<open>\<open>n.toString(radix)\<close> for a number that is an integer or \<open>NaN\<close>.\<close>

definition Number_toString :: "int option \<Rightarrow> nat \<Rightarrow> string" where
  "Number_toString x radix =
     (case x of
        None \<Rightarrow> ''NaN''
      | Some i \<Rightarrow> if i < 0 then CHR ''-'' # radix_digits radix (nat (- i))
                  else radix_digits radix (nat i))"

text \<open>\<open>Math.round\<close>: the nearest integer, halves rounded up.\<close>

definition Math_round :: "jsnum \<Rightarrow> int option" where
  "Math_round x = (case x of NaN \<Rightarrow> None | Num v \<Rightarrow> Some \<lfloor>v + 1 / 2\<rfloor>)"

definition Math_min :: "jsnum \<Rightarrow> jsnum \<Rightarrow> jsnum" where
  "Math_min x y =
     (case x of NaN \<Rightarrow> NaN | Num a \<Rightarrow> (case y of NaN \<Rightarrow> NaN | Num b \<Rightarrow> Num (min a b)))"

definition Math_max :: "jsnum \<Rightarrow> jsnum \<Rightarrow> jsnum" where
  "Math_max x y =
     (case x of NaN \<Rightarrow> NaN | Num a \<Rightarrow> (case y of NaN \<Rightarrow> NaN | Num b \<Rightarrow> Num (max a b)))"

definition times :: "jsnum \<Rightarrow> real \<Rightarrow> jsnum" where
  "times x k = (case x of NaN \<Rightarrow> NaN | Num a \<Rightarrow> Num (a * k))"

text \<open>An integer or \<open>NaN\<close> divided by a non-zero constant.\<close>

definition divided :: "int option \<Rightarrow> real \<Rightarrow> jsnum" where
  "divided x k = (case x of None \<Rightarrow> NaN | Some i \<Rightarrow> Num (real_of_int i / k))"

section \<open>The colour model (src/ui/utils/color.ts)\<close>

definition expandColor :: "string \<Rightarrow> string" where
  "expandColor hex =
     (if hex = [] then []
      else let cleaned = toUpperCase (strip_hash hex) in
        if length cleaned = 1 then repeat cleaned 6
        else if length cleaned = 2 then repeat cleaned 3
        else if length cleaned = 3 then concat (map (\<lambda>c. [c, c]) cleaned)
        else cleaned)"

text \<open>The fields \<open>r\<close>, \<open>g\<close>, \<open>b\<close>, \<open>a\<close> of the interface carry a prefix here.\<close>

record ParsedColor =
  pc_r :: jsnum
  pc_g :: jsnum
  pc_b :: jsnum
  pc_a :: jsnum

definition parseColorWithAlpha :: "string \<Rightarrow> ParsedColor" where
  "parseColorWithAlpha hex =
     (let cleaned = toUpperCase (strip_hash hex);
          rgb = expandColor (substring cleaned 0 6)
      in if rgb = [] \<or> length rgb < 6 then \<lparr>pc_r = Num 0, pc_g = Num 0, pc_b = Num 0, pc_a = Num 1\<rparr>
         else
           let r = divided (parseInt (substring rgb 0 2) 16) 255;
               g = divided (parseInt (substring rgb 2 4) 16) 255;
               b = divided (parseInt (substring rgb 4 6) 16) 255;
               a = (if length cleaned \<ge> 8
                    then divided (parseInt (substring cleaned 6 8) 16) 255
                    else if length cleaned = 7 then Num 1
                    else Num 1)
           in \<lparr>pc_r = r, pc_g = g, pc_b = b, pc_a = a\<rparr>)"

text \<open>The local function \<open>toHex\<close> of \<open>rgbaToHex8\<close>.\<close>

definition toHex :: "jsnum \<Rightarrow> string" where
  "toHex n =
     (let clamped = Math_round (times (Math_max (Num 0) (Math_min (Num 1) n)) 255)
      in toUpperCase (padStart (Number_toString clamped 16) 2 CHR ''0''))"

definition rgbaToHex8 :: "jsnum \<Rightarrow> jsnum \<Rightarrow> jsnum \<Rightarrow> jsnum \<Rightarrow> string" where
  "rgbaToHex8 r g b a = CHR ''#'' # toHex r @ toHex g @ toHex b @ toHex a"

definition toHex8 :: "string \<Rightarrow> string" where
  "toHex8 hex = (let c = parseColorWithAlpha hex in rgbaToHex8 (pc_r c) (pc_g c) (pc_b c) (pc_a c))"

subsection \<open>Auxiliary notions for the proofs\<close>

text \<open>The upper-case hexadecimal digit of a value below 16, and the two digits of a byte.\<close>

definition hexc :: "nat \<Rightarrow> char" where
  "hexc d = toUpperCase_char (digit_char d)"

definition hex_byte :: "nat \<Rightarrow> string" where
  "hex_byte k = [hexc (k div 16), hexc (k mod 16)]"

text \<open>The byte that \<open>toHex\<close> computes from a finite number.\<close>

definition byte_of :: "real \<Rightarrow> nat" where
  "byte_of x = nat \<lfloor>max 0 (min 1 x) * 255 + 1 / 2\<rfloor>"

text \<open>
  A character with which a number can begin for \<open>parseInt\<close> in radix 16: a digit,
  white space, or a sign.
\<close>

definition number_start :: "char \<Rightarrow> bool" where
  "number_start c \<longleftrightarrow>
     radix_digit 16 c \<noteq> None \<or> isWhiteSpace c \<or> c = CHR ''+'' \<or> c = CHR ''-''"

text \<open>A channel that is \<open>NaN\<close> or \<open>k / 255\<close> for an integer \<open>k\<close> between -255 and 255.\<close>

definition channel_ok :: "jsnum \<Rightarrow> bool" where
  "channel_ok x \<longleftrightarrow>
     x = NaN \<or> (\<exists>k::int. x = Num (real_of_int k / 255) \<and> - 255 \<le> k \<and> k \<le> 255)"

section \<open>The colour picker (class ColorPicker)\<close>

text \<open>The pattern \<open>/^[0-9A-Fa-f]{1,6}$/i\<close>.\<close>

definition hex_pattern :: "string \<Rightarrow> bool" where
  "hex_pattern s = (1 \<le> length s \<and> length s \<le> 6 \<and> list_all (\<lambda>c. radix_digit 16 c \<noteq> None) s)"

text \<open>
  What the three input elements keep when their \<open>value\<close> is assigned (the value
  sanitisation of HTML): a text input drops line breaks, a colour input keeps a hash
  sign with six hexadecimal digits in lower case and otherwise holds \<open>#000000\<close>, a
  number input keeps a valid floating-point number and otherwise holds the empty string.
\<close>

definition text_input_value :: "string \<Rightarrow> string" where
  "text_input_value s = filter (\<lambda>c. c \<noteq> CHR 0x0A \<and> c \<noteq> CHR 0x0D) s"

definition color_input_value :: "string \<Rightarrow> string" where
  "color_input_value s =
     (if length s = 7 \<and> hd s = CHR ''#'' \<and> list_all (\<lambda>c. radix_digit 16 c \<noteq> None) (tl s)
      then map toLowerCase_char s else ''#000000'')"

definition isDigit :: "char \<Rightarrow> bool" where
  "isDigit c = (radix_digit 10 c \<noteq> None)"

definition exponent_ok :: "string \<Rightarrow> bool" where
  "exponent_ok s =
     (s = [] \<or>
      ((hd s = CHR ''e'' \<or> hd s = CHR ''E'') \<and>
       (let t = tl s;
            u = (if t \<noteq> [] \<and> (hd t = CHR ''-'' \<or> hd t = CHR ''+'') then tl t else t)
        in u \<noteq> [] \<and> list_all isDigit u)))"

definition valid_floating_point_number :: "string \<Rightarrow> bool" where
  "valid_floating_point_number s =
     (let s1 = (if s \<noteq> [] \<and> hd s = CHR ''-'' then tl s else s);
          ip = takeWhile isDigit s1;
          r1 = dropWhile isDigit s1
      in if r1 \<noteq> [] \<and> hd r1 = CHR ''.''
         then takeWhile isDigit (tl r1) \<noteq> [] \<and> exponent_ok (dropWhile isDigit (tl r1))
         else ip \<noteq> [] \<and> exponent_ok r1)"

definition number_input_value :: "string \<Rightarrow> string" where
  "number_input_value s = (if valid_floating_point_number s then s else [])"

text \<open>
  The state of a picker: the \<open>value\<close> option it was constructed with and the values of
  its native picker, its hex text field and, when alpha is used, its opacity field. The
  swatch is only painted, never read, and is left out.
\<close>

record ColorPicker =
  options_value :: string
  pickerInput_value :: string
  hexInput_value :: string
  opacityInput_value :: "string option"

definition setValue :: "ColorPicker \<Rightarrow> string \<Rightarrow> ColorPicker" where
  "setValue p v =
     (let c = parseColorWithAlpha (if v = [] then ''#000000FF'' else v);
          hex6 = toUpperCase (concat (map
                   (\<lambda>x. padStart (Number_toString (Math_round (times x 255)) 16) 2 CHR ''0'')
                   [pc_r c, pc_g c, pc_b c]))
      in p\<lparr>hexInput_value := text_input_value (substring (expandColor hex6) 0 6),
            pickerInput_value := color_input_value (CHR ''#'' # hex6),
            opacityInput_value :=
              (case opacityInput_value p of
                 None \<Rightarrow> None
               | Some old \<Rightarrow>
                   Some (number_input_value
                     (Number_toString (Math_round (times (pc_a c) 100)) 10)))\<rparr>)"

text \<open>
  The constructor. \<open>useAlpha\<close> is an optional option and defaults to true; a new colour
  input holds \<open>#000000\<close>, a new text input is empty.
\<close>

definition new_ColorPicker :: "string \<Rightarrow> bool option \<Rightarrow> ColorPicker" where
  "new_ColorPicker v useAlpha =
     setValue
       \<lparr>options_value = v, pickerInput_value = ''#000000'', hexInput_value = [],
        opacityInput_value =
          (if (case useAlpha of None \<Rightarrow> True | Some u \<Rightarrow> u) then Some ''100'' else None)\<rparr>
       v"

definition getValueFromInputs :: "ColorPicker \<Rightarrow> string" where
  "getValueFromInputs p =
     (let hexRaw = trim (hexInput_value p) in
      if \<not> hex_pattern hexRaw
      then (if options_value p = [] then ''#000000FF'' else options_value p)
      else
        let hex6 = substring (expandColor hexRaw) 0 6;
            r = divided (parseInt (substring hex6 0 2) 16) 255;
            g = divided (parseInt (substring hex6 2 4) 16) 255;
            b = divided (parseInt (substring hex6 4 6) 16) 255;
            a = (case opacityInput_value p of
                   None \<Rightarrow> Num 1
                 | Some ov \<Rightarrow>
                     (case parseInt ov 10 of
                        None \<Rightarrow> Num 1
                      | Some n \<Rightarrow> Num (real_of_int (max 0 (min 100 n)) / 100)))
        in rgbaToHex8 r g b a)"

definition getValue :: "ColorPicker \<Rightarrow> string" where
  "getValue p = getValueFromInputs p"

text \<open>
  The event handlers. Each returns the new state and the value passed to \<open>onChange\<close>.
\<close>

definition emitChange :: "ColorPicker \<Rightarrow> ColorPicker \<times> string" where
  "emitChange p = (p, getValueFromInputs p)"

definition onPickerChange :: "ColorPicker \<Rightarrow> ColorPicker \<times> string" where
  "onPickerChange p =
     (let expanded = expandColor (pickerInput_value p)
      in emitChange (p\<lparr>hexInput_value := text_input_value (substring expanded 0 6)\<rparr>))"

definition onHexInput :: "ColorPicker \<Rightarrow> ColorPicker \<times> string" where
  "onHexInput p =
     (let v = trim (hexInput_value p);
          p' = (if hex_pattern v
                then p\<lparr>pickerInput_value :=
                         color_input_value (CHR ''#'' # substring (expandColor v) 0 6)\<rparr>
                else p)
      in (p', getValueFromInputs p'))"

definition onHexChange :: "ColorPicker \<Rightarrow> ColorPicker \<times> string" where
  "onHexChange p =
     (let v = trim (hexInput_value p);
          p' = (if hex_pattern v
                then p\<lparr>hexInput_value := text_input_value (substring (expandColor v) 0 6),
                       pickerInput_value :=
                         color_input_value (CHR ''#'' # substring (expandColor v) 0 6)\<rparr>
                else p)
      in emitChange p')"

definition onOpacityInput :: "ColorPicker \<Rightarrow> ColorPicker \<times> string" where
  "onOpacityInput p = emitChange p"

definition onOpacityChange :: "ColorPicker \<Rightarrow> ColorPicker \<times> string" where
  "onOpacityChange p =
     (let p' = (case opacityInput_value p of
                  None \<Rightarrow> p
                | Some ov \<Rightarrow>
                    (let clamped = (case parseInt ov 10 of
                                      None \<Rightarrow> 100
                                    | Some n \<Rightarrow> max 0 (min 100 n))
                     in p\<lparr>opacityInput_value :=
                            Some (number_input_value (Number_toString (Some clamped) 10))\<rparr>))
      in emitChange p')"

text \<open>
  What can happen to a picker: its owner calls \<open>setValue\<close>; the user edits the hex field
  (an \<open>input\<close> event), leaves it (a \<open>change\<close> event), picks a colour in the native
  picker, edits the opacity field or leaves it.
\<close>

datatype picker_event =
    SetValue string
  | HexInput string
  | HexChange
  | PickerChange string
  | OpacityInput string
  | OpacityChange

fun picker_step :: "ColorPicker \<Rightarrow> picker_event \<Rightarrow> ColorPicker" where
  "picker_step p (SetValue v) = setValue p v"
| "picker_step p (HexInput t) = fst (onHexInput (p\<lparr>hexInput_value := text_input_value t\<rparr>))"
| "picker_step p HexChange = fst (onHexChange p)"
| "picker_step p (PickerChange t) =
     fst (onPickerChange (p\<lparr>pickerInput_value := color_input_value t\<rparr>))"
| "picker_step p (OpacityInput t) =
     fst (onOpacityInput
       (case opacityInput_value p of
          None \<Rightarrow> p
        | Some old \<Rightarrow> p\<lparr>opacityInput_value := Some (number_input_value t)\<rparr>))"
| "picker_step p OpacityChange = fst (onOpacityChange p)"

definition picker_run :: "ColorPicker \<Rightarrow> picker_event list \<Rightarrow> ColorPicker" where
  "picker_run p evs = foldl picker_step p evs"

section \<open>The rows of sub-expression styles (class SubExpressionStyles)\<close>

text \<open>
  Modelled from the spec: the type \<open>SubExpressionStyle\<close> of \<open>../types\<close>, a record
  of an expression, a colour string and an optional occurrence selector. Two records have
  the same \<open>JSON.stringify\<close> text exactly when they are equal.
\<close>

record SubExpressionStyle =
  expression :: string
  color :: string
  occurrences :: "string option"

subsection \<open>Markup of a row\<close>

definition dq :: char where
  "dq = CHR 0x22"

definition quoted :: "string \<Rightarrow> string" where
  "quoted s = dq # s @ [dq]"

definition nl :: string where
  "nl = [CHR 0x0A]"

text \<open>
  \<open>escapeHtml\<close> assigns the text to \<open>textContent\<close> of a fresh element and reads
  \<open>innerHTML\<close> back: the HTML serialisation of a text node, which replaces the
  ampersand and the two angle brackets and leaves every other ASCII character,
  the double quote among them, as it is.
\<close>

definition escapeHtml :: "string \<Rightarrow> string" where
  "escapeHtml text =
     concat (map (\<lambda>c. if c = CHR ''&'' then ''&amp;''
                       else if c = CHR ''<'' then ''&lt;''
                       else if c = CHR ''>'' then ''&gt;''
                       else [c]) text)"

text \<open>The template assigned to \<open>innerHTML\<close> in \<open>createRow\<close>.\<close>

definition createRow_markup :: "SubExpressionStyle \<Rightarrow> nat \<Rightarrow> string" where
  "createRow_markup style index =
     (let occurrenceValue = (case occurrences style of None \<Rightarrow> [] | Some v \<Rightarrow> v);
          idx = quoted (Number_toString (Some (int index)) 10)
      in nl @
         ''      <input type='' @ quoted ''text'' @ '' class='' @ quoted ''subexpression-tex'' @
         '' placeholder='' @ quoted ''exp'' @ '' value='' @ quoted (escapeHtml (expression style)) @
         '' '' @ nl @
         ''             data-row-index='' @ idx @ ''>'' @ nl @
         ''      <div class='' @ quoted ''color-inputs'' @ '' data-row-index='' @ idx @
         ''></div>'' @ nl @
         ''      <input type='' @ quoted ''text'' @ '' class='' @ quoted ''subexpression-occurrence'' @
         '' placeholder='' @ quoted ''1,2 ...'' @ '' value='' @ quoted (escapeHtml occurrenceValue) @
         '' '' @ nl @
         ''             data-row-index='' @ idx @ ''>'' @ nl @
         ''      <button data-row-index='' @ idx @ ''>'' @ [CHR 0xE2, CHR 0x88, CHR 0x92] @
         ''</button>'' @ nl @
         ''      <div class='' @ quoted ''error-message error-tex'' @ '' style='' @
         quoted ''display: none;'' @ ''></div>'' @ nl @
         ''      <div class='' @ quoted ''error-message error-color'' @ '' style='' @
         quoted ''display: none;'' @ ''></div>'' @ nl @
         ''      <div class='' @ quoted ''error-message error-occurrence'' @ '' style='' @
         quoted ''display: none;'' @ ''></div>'' @ nl @
         ''      <div class='' @ quoted ''grid-spacer'' @ ''></div>'' @ nl @
         ''    '')"

text \<open>
  How the HTML parser reads an attribute value that follows an opening double quote: the
  value runs up to the next double quote, and the markup goes on after it. Character
  references are decoded in the value; the three that \<open>escapeHtml\<close> writes are modelled.
\<close>

definition attribute_value_double_quoted :: "string \<Rightarrow> string \<times> string" where
  "attribute_value_double_quoted s =
     (takeWhile (\<lambda>c. c \<noteq> dq) s, drop 1 (dropWhile (\<lambda>c. c \<noteq> dq) s))"

fun decode_refs :: "string \<Rightarrow> string" where
  "decode_refs [] = []"
| "decode_refs (c # cs) =
     (if c = CHR ''&'' \<and> take 4 cs = ''amp;'' then CHR ''&'' # decode_refs (drop 4 cs)
      else if c = CHR ''&'' \<and> take 3 cs = ''lt;'' then CHR ''<'' # decode_refs (drop 3 cs)
      else if c = CHR ''&'' \<and> take 3 cs = ''gt;'' then CHR ''>'' # decode_refs (drop 3 cs)
      else c # decode_refs cs)"

text \<open>The text after the first occurrence of a marker.\<close>

fun find_after :: "string \<Rightarrow> string \<Rightarrow> string" where
  "find_after m [] = []"
| "find_after m (c # cs) =
     (if take (length m) (c # cs) = m then drop (length m) (c # cs) else find_after m cs)"

text \<open>
  The value an input of the template starts with: the parsed \<open>value\<close> attribute, kept
  by a text input without line breaks.
\<close>

definition initial_input_value :: "string \<Rightarrow> string" where
  "initial_input_value text =
     text_input_value (decode_refs (fst (attribute_value_double_quoted (escapeHtml text @ [dq]))))"

subsection \<open>Writing back to the state store\<close>

text \<open>
  Modelled from the spec: the \<open>StateStore\<close> of \<open>../core/StateStore\<close>. Of its state
  only the list of styles is read here; \<open>updateState\<close> replaces that list.
\<close>

record StateStore =
  subExpressionStyles :: "SubExpressionStyle list"

definition getStyles :: "StateStore \<Rightarrow> SubExpressionStyle list" where
  "getStyles store = subExpressionStyles store"

definition updateStyles :: "StateStore \<Rightarrow> SubExpressionStyle list \<Rightarrow> StateStore" where
  "updateStyles store styles = store\<lparr>subExpressionStyles := styles\<rparr>"

text \<open>
  \<open>onUpdate\<close> returns the store it leaves behind together with the calls it made to the
  \<open>clearError\<close> callback (row index and field name), and whether it wrote to the store.
\<close>

record update_result =
  store_after :: StateStore
  cleared :: "(nat \<times> string) list"
  wrote :: bool

definition onUpdate :: "StateStore \<Rightarrow> nat \<Rightarrow> string \<Rightarrow> string \<Rightarrow> update_result" where
  "onUpdate store index field v =
     (let styles = getStyles store in
      if \<not> index < length styles
      then \<lparr>store_after = store, cleared = [], wrote = False\<rparr>
      else
        let style = styles ! index;
            newStyles = styles
        in if field = ''expression''
           then \<lparr>store_after = updateStyles store (newStyles[index := style\<lparr>expression := v\<rparr>]),
                 cleared = [(index, ''tex'')], wrote = True\<rparr>
           else if field = ''color''
           then \<lparr>store_after = updateStyles store (newStyles[index := style\<lparr>color := v\<rparr>]),
                 cleared = [(index, ''color'')], wrote = True\<rparr>
           else if field = ''occurrences''
           then \<lparr>store_after = updateStyles store
                   (newStyles[index := style\<lparr>occurrences := (if v = [] then None else Some v)\<rparr>]),
                 cleared = [(index, ''occurrence'')], wrote = True\<rparr>
           else \<lparr>store_after = updateStyles store newStyles, cleared = [], wrote = True\<rparr>)"

subsection \<open>How the parser reads the start tag of an input\<close>

text \<open>
  \<open>createRow\<close> assigns the template to \<open>innerHTML\<close> and then looks the two text inputs,
  the container of the colour picker and the button up with \<open>querySelector\<close>. The text
  of the expression and of the occurrences stands in the template right after the opening
  double quote of a \<open>value\<close> attribute, so what the lookups find depends on how the HTML
  tokenizer goes on from the state "attribute value (double-quoted)". The states of the
  tokenizer inside a start tag are modelled, with the transitions of the HTML standard;
  where the standard reconsumes a character in another state, the function of that state
  is applied to the same character. An ampersand starts a character reference and returns
  to the same state, and the characters of a reference are none of those tested here, so
  it is read like any other character. \<open>TagEmitted\<close> stands for the start tag being
  complete: the tokenizer is back in the data state.
\<close>

datatype attr_state =
    AttributeValueDoubleQuoted
  | AttributeValueSingleQuoted
  | AttributeValueUnquoted
  | AfterAttributeValueQuoted
  | BeforeAttributeName
  | AttributeName
  | AfterAttributeName
  | BeforeAttributeValue
  | SelfClosingStartTag
  | TagEmitted

text \<open>The white space of HTML: tab, line feed, form feed, carriage return and space.\<close>

definition html_space :: "char \<Rightarrow> bool" where
  "html_space c \<longleftrightarrow> c = CHR 0x09 \<or> c = CHR 0x0A \<or> c = CHR 0x0C \<or> c = CHR 0x0D \<or> c = CHR 0x20"

definition attribute_name_state :: "char \<Rightarrow> attr_state" where
  "attribute_name_state c =
     (if html_space c then AfterAttributeName
      else if c = CHR ''/'' then SelfClosingStartTag
      else if c = CHR ''>'' then TagEmitted
      else if c = CHR ''='' then BeforeAttributeValue
      else AttributeName)"

definition after_attribute_name_state :: "char \<Rightarrow> attr_state" where
  "after_attribute_name_state c =
     (if html_space c then AfterAttributeName
      else if c = CHR ''/'' then SelfClosingStartTag
      else if c = CHR ''='' then BeforeAttributeValue
      else if c = CHR ''>'' then TagEmitted
      else attribute_name_state c)"

definition before_attribute_name_state :: "char \<Rightarrow> attr_state" where
  "before_attribute_name_state c =
     (if html_space c then BeforeAttributeName
      else if c = CHR ''/'' \<or> c = CHR ''>'' then after_attribute_name_state c
      else if c = CHR ''='' then AttributeName
      else attribute_name_state c)"

definition attribute_value_unquoted_state :: "char \<Rightarrow> attr_state" where
  "attribute_value_unquoted_state c =
     (if html_space c then BeforeAttributeName
      else if c = CHR ''>'' then TagEmitted
      else AttributeValueUnquoted)"

definition before_attribute_value_state :: "char \<Rightarrow> attr_state" where
  "before_attribute_value_state c =
     (if html_space c then BeforeAttributeValue
      else if c = dq then AttributeValueDoubleQuoted
      else if c = CHR 0x27 then AttributeValueSingleQuoted
      else if c = CHR ''>'' then TagEmitted
      else attribute_value_unquoted_state c)"

definition after_attribute_value_quoted_state :: "char \<Rightarrow> attr_state" where
  "after_attribute_value_quoted_state c =
     (if html_space c then BeforeAttributeName
      else if c = CHR ''/'' then SelfClosingStartTag
      else if c = CHR ''>'' then TagEmitted
      else before_attribute_name_state c)"

definition self_closing_start_tag_state :: "char \<Rightarrow> attr_state" where
  "self_closing_start_tag_state c =
     (if c = CHR ''>'' then TagEmitted else before_attribute_name_state c)"

fun attr_step :: "attr_state \<Rightarrow> char \<Rightarrow> attr_state" where
  "attr_step AttributeValueDoubleQuoted c =
     (if c = dq then AfterAttributeValueQuoted else AttributeValueDoubleQuoted)"
| "attr_step AttributeValueSingleQuoted c =
     (if c = CHR 0x27 then AfterAttributeValueQuoted else AttributeValueSingleQuoted)"
| "attr_step AttributeValueUnquoted c = attribute_value_unquoted_state c"
| "attr_step AfterAttributeValueQuoted c = after_attribute_value_quoted_state c"
| "attr_step BeforeAttributeName c = before_attribute_name_state c"
| "attr_step AttributeName c = attribute_name_state c"
| "attr_step AfterAttributeName c = after_attribute_name_state c"
| "attr_step BeforeAttributeValue c = before_attribute_value_state c"
| "attr_step SelfClosingStartTag c = self_closing_start_tag_state c"
| "attr_step TagEmitted c = TagEmitted"

text \<open>
  What follows the text of a value in the template, up to the end of the start tag of
  that input: the closing quote, a space, a line break, the indentation and the
  \<open>data-row-index\<close> attribute.
\<close>

definition value_tail :: "nat \<Rightarrow> string" where
  "value_tail index =
     [dq] @ '' '' @ nl @ ''             data-row-index='' @
     quoted (Number_toString (Some (int index)) 10) @ ''>''"

text \<open>
  The start tag of the input that holds \<open>text\<close> is complete at the \<open>>\<close> of the template
  that is meant to end it. The escaped text holds no \<open>>\<close>, so the tag cannot end earlier.
  When it is not complete there, the tokenizer is inside a quoted attribute value and
  takes the markup that follows for the text of that value: up to the next apostrophe,
  or to the end of the template, where an unfinished tag is dropped.
\<close>

definition tag_closes :: "string \<Rightarrow> nat \<Rightarrow> bool" where
  "tag_closes text index \<longleftrightarrow>
     foldl attr_step AttributeValueDoubleQuoted (escapeHtml text @ value_tail index) = TagEmitted"

subsection \<open>Rows and registries\<close>

text \<open>
  A row element: its \<open>data-row-index\<close> attribute as \<open>render\<close> reads it, with
  \<open>parseInt(row.getAttribute('data-row-index') || '-1')\<close> (a negative number stands for
  every attribute that \<open>render\<close> skips: a missing one, a negative one, one that is no
  number); the values of its two text inputs, \<open>None\<close> when the row has no such input;
  and the index that the listeners of the row hold in their closure, when the row was
  created by \<open>createRow\<close> of this object.
\<close>

record Row =
  data_row_index :: int
  tex_value :: "string option"
  occurrence_value :: "string option"
  closure_index :: "nat option"

datatype error = TypeError

text \<open>
  The state of the component. The rows container lists its row elements in document
  order, each with the identity of the element; the registry \<open>existingRows\<close> refers to
  elements by identity. \<open>lastStyles\<close> is the variable of the subscription closure;
  \<open>lastStyles_aliased\<close> tells that it still refers to the array which the constructor
  read from the store, and not yet to a copy of its own. \<open>subscribed\<close> tells that the
  field \<open>unsubscribe\<close> holds the function returned by \<open>subscribe\<close>, that is, that the
  listener is subscribed. \<open>next_element\<close> numbers the elements created so far.

  A colour picker is referred to by the registry under the index of the row it was
  created for, and by the listeners of its own inputs. Its state is kept in the entry of
  the registry. \<open>createRow\<close> runs for an index only when the container holds no row with
  that index, so the entry of an index, when there is one, belongs to the picker of the
  attached row that was created for this index, when there is one. A picker whose entry
  has been deleted or replaced is never read by the component again.
\<close>

record SubExpressionStyles =
  rowsContainer :: "(nat \<times> Row) list"
  activeColorPickerIndices :: "nat set"
  existingRows :: "nat \<rightharpoonup> nat"
  colorPickersByRow :: "nat \<rightharpoonup> ColorPicker"
  lastStyles :: "SubExpressionStyle list"
  lastStyles_aliased :: bool
  subscribed :: bool
  next_element :: nat

text \<open>\<open>array.forEach((x, index) => ...)\<close>, with the state threaded through.\<close>

fun forEach_index :: "('a \<Rightarrow> nat \<Rightarrow> 's \<Rightarrow> 's) \<Rightarrow> 'a list \<Rightarrow> nat \<Rightarrow> 's \<Rightarrow> 's" where
  "forEach_index f [] i s = s"
| "forEach_index f (x # xs) i s = forEach_index f xs (Suc i) (f x i s)"

text \<open>The same with a callback that can throw: the first error ends the iteration.\<close>

fun forEach_index_throw ::
  "('a \<Rightarrow> nat \<Rightarrow> 's \<Rightarrow> 's \<times> error option) \<Rightarrow> 'a list \<Rightarrow> nat \<Rightarrow> 's \<Rightarrow> 's \<times> error option" where
  "forEach_index_throw f [] i s = (s, None)"
| "forEach_index_throw f (x # xs) i s =
     (case f x i s of
        (s', None) \<Rightarrow> forEach_index_throw f xs (Suc i) s'
      | (s', Some e) \<Rightarrow> (s', Some e))"

definition update_element :: "nat \<Rightarrow> (Row \<Rightarrow> Row) \<Rightarrow> (nat \<times> Row) list \<Rightarrow> (nat \<times> Row) list" where
  "update_element rid f rows = map (\<lambda>(i, row). if i = rid then (i, f row) else (i, row)) rows"

definition updateRowInPlace ::
  "SubExpressionStyles \<Rightarrow> nat \<Rightarrow> SubExpressionStyle \<Rightarrow> nat \<Rightarrow> SubExpressionStyles" where
  "updateRowInPlace s row style index =
     (let occurrenceValue = (case occurrences style of None \<Rightarrow> [] | Some v \<Rightarrow> v);
          s1 = s\<lparr>rowsContainer := update_element row
                 (\<lambda>el. el\<lparr>data_row_index := int index,
                          tex_value :=
                            (case tex_value el of
                               None \<Rightarrow> None
                             | Some v \<Rightarrow> Some (if v \<noteq> expression style
                                               then text_input_value (expression style)
                                               else v)),
                          occurrence_value :=
                            (case occurrence_value el of
                               None \<Rightarrow> None
                             | Some v \<Rightarrow> Some (if v \<noteq> occurrenceValue
                                               then text_input_value occurrenceValue
                                               else v))\<rparr>)
                 (rowsContainer s)\<rparr>;
          colorValue = toHex8 (if color style = [] then ''#5DA6F7FF'' else color style)
      in case colorPickersByRow s index of
           None \<Rightarrow> s1
         | Some colorPicker \<Rightarrow>
             if index \<notin> activeColorPickerIndices s \<and> getValue colorPicker \<noteq> colorValue
             then s1\<lparr>colorPickersByRow := (colorPickersByRow s)(index \<mapsto> setValue colorPicker colorValue)\<rparr>
             else s1)"

text \<open>
  \<open>createRow\<close>. When the start tag of the expression input is not complete where the
  template ends it, the markup of the \<open>color-inputs\<close> container is read as the text of
  an attribute value, the lookup of \<open>.color-inputs\<close> gives \<open>null\<close>, and the constructor
  of the picker throws a \<open>TypeError\<close> at \<open>this.container.classList\<close>. When that tag is
  complete and the start tag of the occurrence input is not, the rest of the template
  holds no apostrophe, the unfinished tag is dropped at its end, the lookup of
  \<open>.subexpression-occurrence\<close> gives \<open>null\<close>, and \<open>occurrenceInput.addEventListener\<close>
  throws a \<open>TypeError\<close>: by then the picker is in the registry, and the row is not yet
  in the container. Otherwise the four lookups succeed and the row is appended.
\<close>

definition createRow ::
  "SubExpressionStyles \<Rightarrow> SubExpressionStyle \<Rightarrow> nat \<Rightarrow> SubExpressionStyles \<times> (error + nat)" where
  "createRow s style index =
     (let row = next_element s;
          s0 = s\<lparr>next_element := Suc row\<rparr>;
          occurrenceValue = (case occurrences style of None \<Rightarrow> [] | Some v \<Rightarrow> v);
          colorValue = toHex8 (if color style = [] then ''#5DA6F7FF'' else color style);
          el = \<lparr>data_row_index = int index,
                tex_value = Some (initial_input_value (expression style)),
                occurrence_value = Some (initial_input_value occurrenceValue),
                closure_index = Some index\<rparr>
      in if \<not> tag_closes (expression style) index then (s0, Inl TypeError)
         else
           let colorPicker = new_ColorPicker colorValue (Some True);
               s1 = s0\<lparr>colorPickersByRow := (colorPickersByRow s0)(index \<mapsto> colorPicker)\<rparr>
           in if \<not> tag_closes occurrenceValue index then (s1, Inl TypeError)
              else (s1\<lparr>rowsContainer := rowsContainer s1 @ [(row, el)]\<rparr>, Inr row))"

text \<open>
  The first pass of \<open>render\<close> over the container: the indices found, in the order in
  which the set receives them, and the map from index to element.
\<close>

definition collect_rows :: "(nat \<times> Row) list \<Rightarrow> nat list \<times> (nat \<rightharpoonup> nat)" where
  "collect_rows rows =
     fold (\<lambda>(rid, el) (currentRowIndices, existingRowElements).
             if data_row_index el \<ge> 0
             then (let index = nat (data_row_index el)
                   in (if index \<in> set currentRowIndices then currentRowIndices
                       else currentRowIndices @ [index],
                       existingRowElements(index \<mapsto> rid)))
             else (currentRowIndices, existingRowElements))
          rows ([], Map.empty)"

definition remove_row ::
  "nat \<Rightarrow> (nat \<rightharpoonup> nat) \<Rightarrow> nat \<Rightarrow> SubExpressionStyles \<Rightarrow> SubExpressionStyles" where
  "remove_row n existingRowElements index s =
     (if index < n then s
      else case existingRowElements index of
             None \<Rightarrow> s
           | Some row \<Rightarrow>
               s\<lparr>activeColorPickerIndices := activeColorPickerIndices s - {index},
                 colorPickersByRow := (colorPickersByRow s)(index := None),
                 rowsContainer := filter (\<lambda>(i, el). i \<noteq> row) (rowsContainer s),
                 existingRows := (existingRows s)(index := None)\<rparr>)"

definition update_or_create ::
  "(nat \<rightharpoonup> nat) \<Rightarrow> SubExpressionStyle \<Rightarrow> nat \<Rightarrow> SubExpressionStyles \<Rightarrow>
   SubExpressionStyles \<times> error option" where
  "update_or_create existingRowElements style index s =
     (case existingRowElements index of
        Some existingRow \<Rightarrow> (updateRowInPlace s existingRow style index, None)
      | None \<Rightarrow>
          (case createRow s style index of
             (s', Inl e) \<Rightarrow> (s', Some e)
           | (s', Inr newRow) \<Rightarrow> (s'\<lparr>existingRows := (existingRows s')(index \<mapsto> newRow)\<rparr>, None)))"

text \<open>
  \<open>render\<close>, with the error it throws, if any. The rows container exists once the
  constructor has run, so the early return of \<open>render\<close> for a missing container has no
  case here.
\<close>

definition render ::
  "SubExpressionStyles \<Rightarrow> SubExpressionStyle list \<Rightarrow> SubExpressionStyles \<times> error option" where
  "render s styles =
     (let (currentRowIndices, existingRowElements) = collect_rows (rowsContainer s);
          s1 = fold (remove_row (length styles) existingRowElements) currentRowIndices s
      in forEach_index_throw (update_or_create existingRowElements) styles 0 s1)"

text \<open>
  The listener given to \<open>stateStore.subscribe\<close>, called with the styles of the new state.
  When \<open>render\<close> throws, the assignment to \<open>lastStyles\<close> is not reached.
\<close>

definition patch_row ::
  "SubExpressionStyle list \<Rightarrow> SubExpressionStyle \<Rightarrow> nat \<Rightarrow> SubExpressionStyles \<Rightarrow> SubExpressionStyles" where
  "patch_row old style index s =
     (if index < length old \<and> old ! index \<noteq> style
      then (case existingRows s index of
              None \<Rightarrow> s
            | Some row \<Rightarrow> updateRowInPlace s row style index)
      else s)"

definition on_state_change ::
  "SubExpressionStyles \<Rightarrow> SubExpressionStyle list \<Rightarrow> SubExpressionStyles \<times> error option" where
  "on_state_change s currentStyles =
     (if length currentStyles \<noteq> length (lastStyles s)
      then (case render s currentStyles of
              (s', None) \<Rightarrow> (s'\<lparr>lastStyles := currentStyles, lastStyles_aliased := False\<rparr>, None)
            | (s', Some e) \<Rightarrow> (s', Some e))
      else ((forEach_index (patch_row (lastStyles s)) currentStyles 0 s)
              \<lparr>lastStyles := currentStyles, lastStyles_aliased := False\<rparr>, None))"

text \<open>
  The constructor finds or creates the rows container; \<open>found\<close> lists the row elements
  of a container that it finds, and is empty for a container that it creates. No
  listener of a row that was found belongs to the new object. The constructor subscribes
  the listener, lets \<open>lastStyles\<close> refer to the array of the store and renders that
  array. When \<open>render\<close> throws, so does the constructor, and the listener stays
  subscribed.
\<close>

definition new_SubExpressionStyles ::
  "Row list \<Rightarrow> SubExpressionStyle list \<Rightarrow> SubExpressionStyles \<times> error option" where
  "new_SubExpressionStyles found styles =
     render \<lparr>rowsContainer = zip [0..<length found] (map (\<lambda>el. el\<lparr>closure_index := None\<rparr>) found),
             activeColorPickerIndices = {}, existingRows = Map.empty,
             colorPickersByRow = Map.empty, lastStyles = styles, lastStyles_aliased = True,
             subscribed = True, next_element = length found\<rparr> styles"

definition destroy :: "SubExpressionStyles \<Rightarrow> SubExpressionStyles" where
  "destroy s = s\<lparr>subscribed := False, activeColorPickerIndices := {},
                 colorPickersByRow := Map.empty, existingRows := Map.empty\<rparr>"

text \<open>The focus and blur callbacks that a row gives to its colour picker.\<close>

definition onFocus :: "nat \<Rightarrow> SubExpressionStyles \<Rightarrow> SubExpressionStyles" where
  "onFocus index s = s\<lparr>activeColorPickerIndices := insert index (activeColorPickerIndices s)\<rparr>"

definition onBlur :: "nat \<Rightarrow> SubExpressionStyles \<Rightarrow> SubExpressionStyles" where
  "onBlur index s = s\<lparr>activeColorPickerIndices := activeColorPickerIndices s - {index}\<rparr>"

subsection \<open>The registry invariant\<close>

text \<open>
  The rows of the container carry the indices \<open>0, 1, ...\<close> in document order, each was
  created by \<open>createRow\<close> for the index it carries, and they are distinct elements
  created earlier; \<open>existingRows\<close> maps each of these indices to the element at that
  position and nothing else; \<open>colorPickersByRow\<close> has exactly these indices as keys.
\<close>

definition registry_inv :: "SubExpressionStyles \<Rightarrow> bool" where
  "registry_inv s \<longleftrightarrow>
     map (\<lambda>(rid, el). data_row_index el) (rowsContainer s) =
       map int [0..<length (rowsContainer s)] \<and>
     map (\<lambda>(rid, el). closure_index el) (rowsContainer s) =
       map Some [0..<length (rowsContainer s)] \<and>
     distinct (map fst (rowsContainer s)) \<and>
     (\<forall>rid \<in> set (map fst (rowsContainer s)). rid < next_element s) \<and>
     (\<forall>i. existingRows s i =
        (if i < length (rowsContainer s) then Some (fst (rowsContainer s ! i)) else None)) \<and>
     dom (colorPickersByRow s) = {0..<length (rowsContainer s)}"

text \<open>
  Both registries hold exactly the keys \<open>0, ..., n - 1\<close>, and the container holds
  exactly one row for each of these indices.
\<close>

definition bound_to :: "SubExpressionStyles \<Rightarrow> nat \<Rightarrow> bool" where
  "bound_to s n \<longleftrightarrow>
     dom (existingRows s) = {0..<n} \<and>
     dom (colorPickersByRow s) = {0..<n} \<and>
     map (\<lambda>(rid, el). data_row_index el) (rowsContainer s) = map int [0..<n]"

text \<open>The colour a row shows for a style: \<open>toHex8(style.color || '#5DA6F7FF')\<close>.\<close>

definition colorValue_of :: "SubExpressionStyle \<Rightarrow> string" where
  "colorValue_of style = toHex8 (if color style = [] then ''#5DA6F7FF'' else color style)"

text \<open>
  An alpha value as the opacity field of a picker holds it, in whole percent:
  \<open>Math.round(a * 100) / 100\<close>.
\<close>

definition whole_percent :: "jsnum \<Rightarrow> jsnum" where
  "whole_percent a = divided (Math_round (times a 100)) 100"

text \<open>A colour string all of whose four parsed channels are numbers.\<close>

definition numeric_color :: "string \<Rightarrow> bool" where
  "numeric_color v \<longleftrightarrow>
     pc_r (parseColorWithAlpha v) \<noteq> NaN \<and> pc_g (parseColorWithAlpha v) \<noteq> NaN \<and>
     pc_b (parseColorWithAlpha v) \<noteq> NaN \<and> pc_a (parseColorWithAlpha v) \<noteq> NaN"

text \<open>
  What a picker displays after it was set to the hex8 colour \<open>v\<close>: the hex field holds
  the six digits of \<open>v\<close> that follow the hash sign, the opacity field holds the alpha
  of \<open>v\<close> in whole percent, and \<open>getValue\<close> reads the colour of \<open>v\<close> with the alpha
  that a whole percentage gives.
\<close>

definition picker_shows :: "ColorPicker \<Rightarrow> string \<Rightarrow> bool" where
  "picker_shows p v \<longleftrightarrow>
     hexInput_value p = substring v 1 7 \<and>
     opacityInput_value p =
       Some (Number_toString (Math_round (times (pc_a (parseColorWithAlpha v)) 100)) 10) \<and>
     getValue p =
       rgbaToHex8 (pc_r (parseColorWithAlpha v)) (pc_g (parseColorWithAlpha v))
         (pc_b (parseColorWithAlpha v)) (whole_percent (pc_a (parseColorWithAlpha v)))"

text \<open>Every picker of the registry has an opacity field (it was made with \<open>useAlpha\<close>).\<close>

definition with_opacity :: "SubExpressionStyles \<Rightarrow> bool" where
  "with_opacity s \<longleftrightarrow> (\<forall>i p. colorPickersByRow s i = Some p \<longrightarrow> opacityInput_value p \<noteq> None)"

text \<open>The row template of every style of a list is read as a complete row.\<close>

definition rows_parse :: "SubExpressionStyle list \<Rightarrow> bool" where
  "rows_parse styles \<longleftrightarrow>
     list_all (\<lambda>(index, style).
         tag_closes (expression style) index \<and>
         tag_closes (case occurrences style of None \<Rightarrow> [] | Some v \<Rightarrow> v) index)
       (zip [0..<length styles] styles)"

subsection \<open>Runs of the component\<close>

text \<open>
  What happens to the component after its construction. The store notifies the listener
  with the styles of a new state, as long as the listener is subscribed. The array that
  the constructor read, or a record in it, is changed in place; the change shows in
  \<open>lastStyles\<close> as long as this variable refers to that array. The public methods
  \<open>render\<close> and \<open>destroy\<close> are called from outside the class. The user acts on a row
  element of the container: an input of its colour picker gains or loses focus, the
  user acts on its colour picker, or types into one of its two text inputs. The
  listeners of a row hold the index for which the row was created, and a row that the
  constructor found has no listener of this object. The write to the store that follows
  a user action reaches the component as a notification of its own.
\<close>

datatype ui_event =
    StateChange "SubExpressionStyle list"
  | StoreMutation "SubExpressionStyle list"
  | Render "SubExpressionStyle list"
  | Destroy
  | Focus nat
  | Blur nat
  | PickerEdit nat picker_event
  | TexEdit nat string
  | OccurrenceEdit nat string

definition listener_index :: "SubExpressionStyles \<Rightarrow> nat \<Rightarrow> nat option" where
  "listener_index s rid =
     (case map_of (rowsContainer s) rid of None \<Rightarrow> None | Some el \<Rightarrow> closure_index el)"

fun ui_step :: "SubExpressionStyles \<Rightarrow> ui_event \<Rightarrow> SubExpressionStyles" where
  "ui_step s (StateChange currentStyles) =
     (if subscribed s then fst (on_state_change s currentStyles) else s)"
| "ui_step s (StoreMutation styles) =
     (if lastStyles_aliased s then s\<lparr>lastStyles := styles\<rparr> else s)"
| "ui_step s (Render styles) = fst (render s styles)"
| "ui_step s Destroy = destroy s"
| "ui_step s (Focus rid) =
     (case listener_index s rid of None \<Rightarrow> s | Some i \<Rightarrow> onFocus i s)"
| "ui_step s (Blur rid) =
     (case listener_index s rid of None \<Rightarrow> s | Some i \<Rightarrow> onBlur i s)"
| "ui_step s (PickerEdit rid e) =
     (case listener_index s rid of
        None \<Rightarrow> s
      | Some i \<Rightarrow>
          (case colorPickersByRow s i of
             None \<Rightarrow> s
           | Some p \<Rightarrow>
               (case e of
                  SetValue v \<Rightarrow> s
                | _ \<Rightarrow> s\<lparr>colorPickersByRow := (colorPickersByRow s)(i \<mapsto> picker_step p e)\<rparr>)))"
| "ui_step s (TexEdit rid t) =
     s\<lparr>rowsContainer :=
         update_element rid
           (\<lambda>el. el\<lparr>tex_value := map_option (\<lambda>v. text_input_value t) (tex_value el)\<rparr>)
           (rowsContainer s)\<rparr>"
| "ui_step s (OccurrenceEdit rid t) =
     s\<lparr>rowsContainer :=
         update_element rid
           (\<lambda>el. el\<lparr>occurrence_value := map_option (\<lambda>v. text_input_value t) (occurrence_value el)\<rparr>)
           (rowsContainer s)\<rparr>"

definition ui_run ::
  "Row list \<Rightarrow> SubExpressionStyle list \<Rightarrow> ui_event list \<Rightarrow> SubExpressionStyles" where
  "ui_run found initial evs = foldl ui_step (fst (new_SubExpressionStyles found initial)) evs"

text \<open>
  The events of a run in which \<open>render\<close> and \<open>destroy\<close> are called by the component
  alone, the store hands a new array to every state and leaves the old one as it is, and
  every row template is read as a complete row.
\<close>

fun regular_event :: "ui_event \<Rightarrow> bool" where
  "regular_event (StateChange currentStyles) = rows_parse currentStyles"
| "regular_event (StoreMutation styles) = False"
| "regular_event (Render styles) = False"
| "regular_event Destroy = False"
| "regular_event (Focus rid) = True"
| "regular_event (Blur rid) = True"
| "regular_event (PickerEdit rid e) = True"
| "regular_event (TexEdit rid t) = True"
| "regular_event (OccurrenceEdit rid t) = True"

text \<open>
  The registry invariant together with two more facts: the listener has last seen as
  many styles as there are rows, and only rows that exist are in the active-edit set.
\<close>

definition consistent :: "SubExpressionStyles \<Rightarrow> bool" where
  "consistent s \<longleftrightarrow>
     registry_inv s \<and> length (lastStyles s) = length (rowsContainer s) \<and>
     activeColorPickerIndices s \<subseteq> {0..<length (rowsContainer s)}"

section \<open>Properties of the colour model\<close>

lemma length_toUpperCase [simp]: "length (toUpperCase s) = length s"
  by (simp add: toUpperCase_def)

text \<open>
  C5. \<open>expandColor\<close> strips one leading hash sign, uppercases, and then: one
  character is repeated six times, two characters are repeated three times, each of three
  characters is doubled in place, four or more characters are returned unchanged, and an
  empty input gives the empty string. Inputs of one, two or three characters give six
  characters. The four examples of the specification hold.
\<close>

theorem expandColor_shorthand:
  "(hex = [] \<longrightarrow> expandColor hex = []) \<and>
   (toUpperCase (strip_hash hex) = [] \<longrightarrow> expandColor hex = []) \<and>
   (\<forall>x. toUpperCase (strip_hash hex) = [x] \<longrightarrow> expandColor hex = [x, x, x, x, x, x]) \<and>
   (\<forall>x y. toUpperCase (strip_hash hex) = [x, y] \<longrightarrow> expandColor hex = [x, y, x, y, x, y]) \<and>
   (\<forall>x y z. toUpperCase (strip_hash hex) = [x, y, z] \<longrightarrow> expandColor hex = [x, x, y, y, z, z]) \<and>
   (4 \<le> length (toUpperCase (strip_hash hex)) \<longrightarrow> expandColor hex = toUpperCase (strip_hash hex)) \<and>
   (length (toUpperCase (strip_hash hex)) \<in> {1, 2, 3} \<longrightarrow> length (expandColor hex) = 6) \<and>
   expandColor ''2'' = ''222222'' \<and> expandColor ''20'' = ''202020'' \<and>
   expandColor ''123'' = ''112233'' \<and> expandColor ''1A2B3C'' = ''1A2B3C''"
proof -
  let ?c = "toUpperCase (strip_hash hex)"
  have e: "hex = [] \<longrightarrow> expandColor hex = []"
    by (simp add: expandColor_def)
  have e0: "?c = [] \<longrightarrow> expandColor hex = []"
    by (simp add: expandColor_def Let_def)
  have e1: "\<forall>x. ?c = [x] \<longrightarrow> expandColor hex = [x, x, x, x, x, x]"
    by (auto simp add: expandColor_def Let_def repeat_def strip_hash_def toUpperCase_def eval_nat_numeral)
  have e2: "\<forall>x y. ?c = [x, y] \<longrightarrow> expandColor hex = [x, y, x, y, x, y]"
    by (auto simp add: expandColor_def Let_def repeat_def strip_hash_def toUpperCase_def eval_nat_numeral)
  have e3: "\<forall>x y z. ?c = [x, y, z] \<longrightarrow> expandColor hex = [x, x, y, y, z, z]"
    by (auto simp add: expandColor_def Let_def strip_hash_def toUpperCase_def)
  have e4: "4 \<le> length ?c \<longrightarrow> expandColor hex = ?c"
    by (auto simp add: expandColor_def Let_def strip_hash_def toUpperCase_def)
  have e6: "length ?c \<in> {1, 2, 3} \<longrightarrow> length (expandColor hex) = 6"
  proof
    assume "length ?c \<in> {1, 2, 3}"
    then consider x where "?c = [x]" | x y where "?c = [x, y]" | x y z where "?c = [x, y, z]"
      by (auto simp add: length_Suc_conv eval_nat_numeral simp del: length_toUpperCase)
    then show "length (expandColor hex) = 6"
    proof cases
      case 1 with e1 show ?thesis by simp
    next
      case 2 with e2 show ?thesis by simp
    next
      case 3 with e3 show ?thesis by simp
    qed
  qed
  have x1: "expandColor ''2'' = ''222222''" by code_simp
  have x2: "expandColor ''20'' = ''202020''" by code_simp
  have x3: "expandColor ''123'' = ''112233''" by code_simp
  have x4: "expandColor ''1A2B3C'' = ''1A2B3C''" by code_simp
  from e e0 e1 e2 e3 e4 e6 x1 x2 x3 x4 show ?thesis by blast
qed

lemma cleaned_examples:
  "toUpperCase (strip_hash ''#a'') = ''A''"
  "toUpperCase (strip_hash ''#2f'') = ''2F''"
  "toUpperCase (strip_hash ''#1a2'') = ''1A2''"
  by code_simp+

theorem expandColor_shorthand_witness:
  "expandColor ''#a'' = ''AAAAAA'' \<and> expandColor ''#2f'' = ''2F2F2F'' \<and>
   expandColor ''#1a2'' = ''11AA22'' \<and> length (expandColor ''#1a2'') = 6"
  using expandColor_shorthand [of "''#a''"] expandColor_shorthand [of "''#2f''"]
    expandColor_shorthand [of "''#1a2''"] cleaned_examples
  by simp

lemma neq_NaN_conv: "x \<noteq> NaN \<longleftrightarrow> (\<exists>v. x = Num v)"
  by (cases x) simp_all

lemma hexc_vals:
  "hexc 0 = CHR ''0''" "hexc 1 = CHR ''1''" "hexc 2 = CHR ''2''" "hexc 3 = CHR ''3''"
  "hexc 4 = CHR ''4''" "hexc 5 = CHR ''5''" "hexc 6 = CHR ''6''" "hexc 7 = CHR ''7''"
  "hexc 8 = CHR ''8''" "hexc 9 = CHR ''9''" "hexc 10 = CHR ''A''" "hexc 11 = CHR ''B''"
  "hexc 12 = CHR ''C''" "hexc 13 = CHR ''D''" "hexc 14 = CHR ''E''" "hexc 15 = CHR ''F''"
  "hexc (Suc 0) = CHR ''1''"
  by code_simp+

lemma less_16_cases:
  assumes "d < (16::nat)"
  shows "d \<in> {0, 1, 2, 3, 4, 5, 6, 7, 8, 9, 10, 11, 12, 13, 14, 15}"
  using assms by simp presburger

lemma hexc_props:
  assumes "d < 16"
  shows "radix_digit 16 (hexc d) = Some d"
    and "\<not> isWhiteSpace (hexc d)"
    and "hexc d \<noteq> CHR ''-''" and "hexc d \<noteq> CHR ''+''"
    and "hexc d \<noteq> CHR ''x''" and "hexc d \<noteq> CHR ''X''" and "hexc d \<noteq> CHR ''#''"
    and "toUpperCase_char (hexc d) = hexc d"
proof -
  note d = less_16_cases [OF assms]
  show "radix_digit 16 (hexc d) = Some d" using d
    by (auto simp add: hexc_vals radix_digit_def)
  show "\<not> isWhiteSpace (hexc d)" using d
    by (auto simp add: hexc_vals isWhiteSpace_def)
  show "hexc d \<noteq> CHR ''-''" "hexc d \<noteq> CHR ''+''" "hexc d \<noteq> CHR ''x''" "hexc d \<noteq> CHR ''X''"
       "hexc d \<noteq> CHR ''#''"
    using d by (auto simp add: hexc_vals)
  show "toUpperCase_char (hexc d) = hexc d"
    using d by (auto simp add: hexc_vals toUpperCase_char_def)
qed

lemma parseInt_hex_byte:
  assumes "k < 256"
  shows "parseInt (hex_byte k) 16 = Some (int k)"
proof -
  have d1: "k div 16 < 16" and d2: "k mod 16 < 16" using assms by auto
  show ?thesis
    using hexc_props [OF d1] hexc_props [OF d2]
    by (simp add: parseInt_def hex_byte_def Let_def digits_value_def)
qed

lemma hexc_0: "hexc 0 = toUpperCase_char CHR ''0''"
  by (simp add: hexc_vals toUpperCase_char_def)

lemma toString_hex_byte:
  assumes "k < 256"
  shows "toUpperCase (padStart (Number_toString (Some (int k)) 16) 2 CHR ''0'') = hex_byte k"
proof (cases "k < 16")
  case True
  then show ?thesis
    by (simp add: Number_toString_def padStart_def toUpperCase_def hex_byte_def hexc_0)
      (simp add: hexc_def)
next
  case False
  then have "k div 16 < 16" "\<not> k < 16" using assms by auto
  then show ?thesis
    by (simp add: Number_toString_def padStart_def toUpperCase_def hex_byte_def hexc_def)
qed

lemma byte_of_less: "byte_of x < 256"
proof -
  have "max 0 (min 1 x) * 255 + 1 / 2 < 256" by (simp add: max_def min_def)
  then have "\<lfloor>max 0 (min 1 x) * 255 + 1 / 2\<rfloor> < (256::int)" by linarith
  moreover have "0 \<le> \<lfloor>max 0 (min 1 x) * 255 + 1 / 2\<rfloor>"
    by (simp add: max_def min_def)
  ultimately show ?thesis unfolding byte_of_def by linarith
qed

lemma toHex_Num: "toHex (Num x) = hex_byte (byte_of x)"
proof -
  have nn: "0 \<le> \<lfloor>max 0 (min 1 x) * 255 + 1 / 2\<rfloor>"
    by (simp add: max_def min_def)
  have "toHex (Num x) =
      toUpperCase (padStart (Number_toString (Some (int (byte_of x))) 16) 2 CHR ''0'')"
    using nn by (simp add: toHex_def Math_round_def Math_min_def Math_max_def times_def
        byte_of_def Let_def)
  then show ?thesis by (simp add: toString_hex_byte byte_of_less)
qed

lemma byte_of_byte: "k < 256 \<Longrightarrow> byte_of (real k / 255) = k"
proof -
  assume k: "k < 256"
  then have "real k / 255 \<le> 1" "0 \<le> real k / 255" by simp_all
  then have "max 0 (min 1 (real k / 255)) = real k / 255" by (simp add: max_def min_def)
  moreover have "\<lfloor>real k + 1 / 2\<rfloor> = int k" by linarith
  ultimately show ?thesis by (simp add: byte_of_def)
qed

lemma byte_of_close:
  assumes "0 \<le> x" "x \<le> 1"
  shows "\<bar>real (byte_of x) / 255 - x\<bar> \<le> 1 / 255"
proof -
  from assms have m: "max 0 (min 1 x) = x" by (simp add: max_def min_def)
  let ?f = "\<lfloor>x * 255 + 1 / 2\<rfloor>"
  have nn: "0 \<le> ?f" using assms by simp
  have "real_of_int ?f \<le> x * 255 + 1 / 2" "x * 255 + 1 / 2 < real_of_int ?f + 1"
    by linarith+
  moreover have "real (byte_of x) = real_of_int ?f"
    using nn by (simp add: byte_of_def m)
  ultimately show ?thesis by (simp add: abs_le_iff field_simps)
qed

lemma hex_byte_ne: "hex_byte k \<noteq> []"
  by (simp add: hex_byte_def)

lemma hex_byte_length: "length (hex_byte k) = 2"
  by (simp add: hex_byte_def)

lemma parse_hex8:
  assumes "kr < 256" "kg < 256" "kb < 256" "ka < 256"
  shows "parseColorWithAlpha (CHR ''#'' # hex_byte kr @ hex_byte kg @ hex_byte kb @ hex_byte ka) =
    \<lparr>pc_r = Num (real kr / 255), pc_g = Num (real kg / 255),
     pc_b = Num (real kb / 255), pc_a = Num (real ka / 255)\<rparr>"
proof -
  let ?s = "hex_byte kr @ hex_byte kg @ hex_byte kb @ hex_byte ka"
  have d: "kr div 16 < 16" "kr mod 16 < 16" "kg div 16 < 16" "kg mod 16 < 16"
    "kb div 16 < 16" "kb mod 16 < 16" "ka div 16 < 16" "ka mod 16 < 16"
    using assms by auto
  have up: "toUpperCase ?s = ?s"
    using d by (simp add: toUpperCase_def hex_byte_def hexc_props)
  have cl: "toUpperCase (strip_hash (CHR ''#'' # ?s)) = ?s"
    using up by (simp add: strip_hash_def)
  have six: "substring ?s 0 6 = hex_byte kr @ hex_byte kg @ hex_byte kb"
    by (simp add: substring_def hex_byte_def)
  have nohash: "strip_hash (hex_byte kr @ hex_byte kg @ hex_byte kb) = hex_byte kr @ hex_byte kg @ hex_byte kb"
    using d by (simp add: strip_hash_def hex_byte_def hexc_props)
  have up6: "toUpperCase (hex_byte kr @ hex_byte kg @ hex_byte kb) = hex_byte kr @ hex_byte kg @ hex_byte kb"
    using d by (simp add: toUpperCase_def hex_byte_def hexc_props)
  have ex: "expandColor (hex_byte kr @ hex_byte kg @ hex_byte kb) = hex_byte kr @ hex_byte kg @ hex_byte kb"
    by (simp add: expandColor_def nohash up6 Let_def) (simp add: hex_byte_def)
  have s1: "substring (hex_byte kr @ hex_byte kg @ hex_byte kb) 0 2 = hex_byte kr"
    and s2: "substring (hex_byte kr @ hex_byte kg @ hex_byte kb) 2 4 = hex_byte kg"
    and s3: "substring (hex_byte kr @ hex_byte kg @ hex_byte kb) 4 6 = hex_byte kb"
    and s4: "substring ?s 6 8 = hex_byte ka"
    by (simp_all add: substring_def hex_byte_def)
  have len: "length ?s = 8" by (simp add: hex_byte_def)
  have len6: "length (hex_byte kr @ hex_byte kg @ hex_byte kb) = 6" by (simp add: hex_byte_def)
  show ?thesis
    unfolding parseColorWithAlpha_def cl six ex Let_def s1 s2 s3 s4 len len6
    using assms by (simp add: parseInt_hex_byte divided_def hex_byte_ne)
qed

lemma toHex8_idem_aux:
  assumes "parseColorWithAlpha x = \<lparr>pc_r = Num r, pc_g = Num g, pc_b = Num b, pc_a = Num a\<rparr>"
  shows "toHex8 (toHex8 x) = toHex8 x"
proof -
  have h: "toHex8 x = CHR ''#'' # hex_byte (byte_of r) @ hex_byte (byte_of g) @
      hex_byte (byte_of b) @ hex_byte (byte_of a)"
    using assms by (simp add: toHex8_def rgbaToHex8_def toHex_Num Let_def)
  have p: "parseColorWithAlpha (toHex8 x) =
     \<lparr>pc_r = Num (real (byte_of r) / 255), pc_g = Num (real (byte_of g) / 255),
      pc_b = Num (real (byte_of b) / 255), pc_a = Num (real (byte_of a) / 255)\<rparr>"
    unfolding h by (rule parse_hex8) (rule byte_of_less)+
  have "toHex8 (toHex8 x) = CHR ''#'' # hex_byte (byte_of r) @ hex_byte (byte_of g) @
      hex_byte (byte_of b) @ hex_byte (byte_of a)"
    unfolding toHex8_def [of "toHex8 x"] p
    by (simp add: Let_def rgbaToHex8_def toHex_Num byte_of_byte byte_of_less)
  with h show ?thesis by simp
qed

lemma expandColor_length:
  assumes "c \<noteq> []" "hd c \<noteq> CHR ''#''" "4 \<le> length c"
  shows "expandColor c = toUpperCase c"
proof -
  from assms have "strip_hash c = c" by (cases c) (simp_all add: strip_hash_def)
  with assms show ?thesis by (simp add: expandColor_def Let_def)
qed

lemma parse_fallback:
  assumes "length (toUpperCase (strip_hash hex)) \<in> {0, 4, 5}"
    and "toUpperCase (strip_hash hex) = [] \<or> hd (toUpperCase (strip_hash hex)) \<noteq> CHR ''#''"
  shows "parseColorWithAlpha hex = \<lparr>pc_r = Num 0, pc_g = Num 0, pc_b = Num 0, pc_a = Num 1\<rparr>"
proof (cases "toUpperCase (strip_hash hex) = []")
  case True
  then show ?thesis by (simp add: parseColorWithAlpha_def substring_def expandColor_def)
next
  case False
  let ?c = "toUpperCase (strip_hash hex)"
  from False assms have l: "length ?c = 4 \<or> length ?c = 5" and h: "hd ?c \<noteq> CHR ''#''"
    by (auto simp del: length_toUpperCase)
  from l have s: "substring ?c 0 6 = ?c"
    by (auto simp add: substring_def simp del: length_toUpperCase)
  from l have "4 \<le> length ?c" by (auto simp del: length_toUpperCase)
  with False h have e: "expandColor ?c = toUpperCase ?c" by (rule expandColor_length)
  have "length (expandColor ?c) < 6"
    unfolding e using l by (auto simp add: length_toUpperCase [of ?c] simp del: length_toUpperCase)
  then show ?thesis by (simp add: parseColorWithAlpha_def s Let_def del: length_toUpperCase)
qed

lemma parse_double_hash:
  fixes hex
  defines "c \<equiv> toUpperCase (strip_hash hex)"
  assumes "6 \<le> length c" "hd c = CHR ''#''"
  shows "parseColorWithAlpha hex = \<lparr>pc_r = Num 0, pc_g = Num 0, pc_b = Num 0, pc_a = Num 1\<rparr>"
proof -
  from assms(2,3) obtain cs where c: "c = CHR ''#'' # cs" and cs: "5 \<le> length cs"
    by (cases c) auto
  have "expandColor (substring c 0 6) = toUpperCase (take 5 cs)"
    using cs by (simp add: c substring_def expandColor_def strip_hash_def Let_def)
  then have "length (expandColor (substring c 0 6)) < 6" using cs by simp
  then show ?thesis by (simp add: parseColorWithAlpha_def Let_def c_def [symmetric])
qed

lemma parse_alpha:
  fixes hex
  defines "c \<equiv> toUpperCase (strip_hash hex)"
  shows "8 \<le> length c \<and> hd c \<noteq> CHR ''#'' \<longrightarrow>
            pc_a (parseColorWithAlpha hex) = divided (parseInt (substring c 6 8) 16) 255"
    and "length c \<le> 7 \<longrightarrow> pc_a (parseColorWithAlpha hex) = Num 1"
proof -
  show "length c \<le> 7 \<longrightarrow> pc_a (parseColorWithAlpha hex) = Num 1"
    by (simp add: parseColorWithAlpha_def Let_def c_def)
  show "8 \<le> length c \<and> hd c \<noteq> CHR ''#'' \<longrightarrow>
            pc_a (parseColorWithAlpha hex) = divided (parseInt (substring c 6 8) 16) 255"
  proof
    assume a: "8 \<le> length c \<and> hd c \<noteq> CHR ''#''"
    then have ne: "take 6 c \<noteq> []" and hd: "hd (take 6 c) \<noteq> CHR ''#''"
      and len: "4 \<le> length (take 6 c)"
      by (cases c; auto)+
    have e: "expandColor (take 6 c) = toUpperCase (take 6 c)"
      using ne hd len by (rule expandColor_length)
    have l6: "length (expandColor (take 6 c)) = 6" unfolding e using a by simp
    from l6 have ne6: "expandColor (take 6 c) \<noteq> []" by auto
    show "pc_a (parseColorWithAlpha hex) = divided (parseInt (substring c 6 8) 16) 255"
      using a l6 ne6 by (simp add: parseColorWithAlpha_def Let_def c_def [symmetric] substring_def)
  qed
qed

lemma toUpperCase_char_idem: "toUpperCase_char (toUpperCase_char c) = toUpperCase_char c"
proof (cases "97 \<le> (of_char c :: nat) \<and> (of_char c :: nat) \<le> 122")
  case True
  then have u: "toUpperCase_char c = char_of (of_char c - 32 :: nat)"
    by (simp add: toUpperCase_char_def)
  from True have "(of_char c :: nat) - 32 < 256" by linarith
  then have "(of_char (char_of (of_char c - 32 :: nat)) :: nat) = of_char c - 32"
    by simp
  moreover from True have "(of_char c :: nat) - 32 < 97" by linarith
  ultimately have "\<not> (97 \<le> (of_char (char_of (of_char c - 32 :: nat)) :: nat))"
    by linarith
  then show ?thesis unfolding u by (simp add: toUpperCase_char_def [of "char_of (of_char c - 32 :: nat)"])
next
  case False
  then have "toUpperCase_char c = c" by (auto simp add: toUpperCase_char_def)
  then show ?thesis by simp
qed

lemma toUpperCase_idem: "toUpperCase (toUpperCase s) = toUpperCase s"
  by (simp add: toUpperCase_def toUpperCase_char_idem)

lemma parseInt_not_number:
  assumes "\<not> number_start x"
  shows "parseInt (x # ys) 16 = None"
proof -
  from assms have a: "\<not> isWhiteSpace x" "x \<noteq> CHR ''+''" "x \<noteq> CHR ''-''" "radix_digit 16 x = None"
    by (simp_all add: number_start_def)
  from a(4) have "x \<noteq> CHR ''0''" by (auto simp add: radix_digit_def)
  then show ?thesis using a
    by (simp add: parseInt_def Let_def)
qed

lemma radix_digit_less: "radix_digit radix c = Some d \<Longrightarrow> d < radix"
  by (auto simp add: radix_digit_def Let_def split: if_splits option.splits)

lemma digits_value_le:
  assumes "length z \<le> 2"
  shows "digits_value 16 z \<le> 255"
proof -
  have d: "(case radix_digit 16 c of None \<Rightarrow> 0 | Some d \<Rightarrow> d) \<le> 15" for c
    using radix_digit_less [of 16 c] by (cases "radix_digit 16 c") auto
  from assms consider "z = []" | a where "z = [a]" | a b where "z = [a, b]"
    by (cases z; cases "tl z"; auto)
  then show ?thesis
  proof cases
    case 1 then show ?thesis by (simp add: digits_value_def)
  next
    case 2 then show ?thesis using d [of a] by (simp add: digits_value_def)
  next
    case 3 then show ?thesis using d [of a] d [of b] by (simp add: digits_value_def)
  qed
qed

lemma parseInt_bound:
  assumes "length s \<le> 2"
  shows "parseInt s 16 = None \<or> (\<exists>k. parseInt s 16 = Some k \<and> - 255 \<le> k \<and> k \<le> 255)"
proof -
  define s0 where "s0 = dropWhile isWhiteSpace s"
  define s1 where "s1 = (if s0 \<noteq> [] \<and> (hd s0 = CHR ''+'' \<or> hd s0 = CHR ''-'') then tl s0 else s0)"
  define s2 where "s2 = (if take 2 s1 = ''0x'' \<or> take 2 s1 = ''0X'' then drop 2 s1 else s1)"
  define z where "z = takeWhile (\<lambda>c. radix_digit 16 c \<noteq> None) s2"
  have "length s0 \<le> length s" unfolding s0_def by (rule length_dropWhile_le)
  moreover have "length s1 \<le> length s0" unfolding s1_def by simp
  moreover have "length s2 \<le> length s1" unfolding s2_def by simp
  moreover have "length z \<le> length s2" unfolding z_def by (rule length_takeWhile_le)
  ultimately have "length z \<le> 2" using assms by linarith
  then have v: "digits_value 16 z \<le> 255" by (rule digits_value_le)
  have "parseInt s 16 = (if z = [] then None
      else Some ((if s0 \<noteq> [] \<and> hd s0 = CHR ''-'' then - 1 else 1) * int (digits_value 16 z)))"
    by (simp add: parseInt_def Let_def s0_def s1_def s2_def z_def)
  then show ?thesis using v by auto
qed

lemma channel_ok_divided:
  assumes "length s \<le> 2"
  shows "channel_ok (divided (parseInt s 16) 255)"
  using parseInt_bound [OF assms] by (auto simp add: channel_ok_def divided_def)

lemma channel_ok_consts: "channel_ok (Num 0)" "channel_ok (Num 1)"
proof -
  have "Num 0 = Num (real_of_int 0 / 255)" by simp
  then show "channel_ok (Num 0)" unfolding channel_ok_def by (metis neg_le_0_iff_le zero_le_numeral order_refl of_int_0 le_numeral_extra(3))
  have "Num 1 = Num (real_of_int 255 / 255)" by simp
  then show "channel_ok (Num 1)" unfolding channel_ok_def by (intro disjI2 exI [of _ 255]) simp
qed

lemma parse_channels_ok:
  "channel_ok (pc_r (parseColorWithAlpha hex)) \<and> channel_ok (pc_g (parseColorWithAlpha hex)) \<and>
   channel_ok (pc_b (parseColorWithAlpha hex)) \<and> channel_ok (pc_a (parseColorWithAlpha hex))"
  by (simp add: parseColorWithAlpha_def Let_def channel_ok_consts channel_ok_divided substring_def)

lemma parse_nan_channels:
  fixes hex
  defines "c \<equiv> toUpperCase (strip_hash hex)"
  assumes "6 \<le> length c" "hd c \<noteq> CHR ''#''"
  shows "\<not> number_start (c ! 0) \<Longrightarrow> pc_r (parseColorWithAlpha hex) = NaN"
    and "\<not> number_start (c ! 2) \<Longrightarrow> pc_g (parseColorWithAlpha hex) = NaN"
    and "\<not> number_start (c ! 4) \<Longrightarrow> pc_b (parseColorWithAlpha hex) = NaN"
proof -
  from assms(2,3) have ne: "take 6 c \<noteq> []" and hd: "hd (take 6 c) \<noteq> CHR ''#''"
    and len: "4 \<le> length (take 6 c)"
    by (cases c; auto)+
  have up: "toUpperCase (take 6 c) = take 6 c"
    unfolding c_def by (simp add: toUpperCase_def toUpperCase_char_idem take_map)
  have e: "expandColor (take 6 c) = take 6 c"
    using expandColor_length [OF ne hd len] up by simp
  obtain x0 x1 x2 x3 x4 x5 where t: "take 6 c = [x0, x1, x2, x3, x4, x5]"
  proof -
    have "length (take 6 c) = 6" using assms(2) by simp
    then show ?thesis
      by (auto simp add: length_Suc_conv eval_nat_numeral simp del: length_take intro: that)
  qed
  have n: "c ! 0 = x0" "c ! 2 = x2" "c ! 4 = x4"
  proof -
    have "take 6 c ! 0 = c ! 0" "take 6 c ! 2 = c ! 2" "take 6 c ! 4 = c ! 4" by simp_all
    then show "c ! 0 = x0" "c ! 2 = x2" "c ! 4 = x4" by (simp_all add: t)
  qed
  have p: "parseColorWithAlpha hex =
    \<lparr>pc_r = divided (parseInt [x0, x1] 16) 255, pc_g = divided (parseInt [x2, x3] 16) 255,
     pc_b = divided (parseInt [x4, x5] 16) 255,
     pc_a = (if 8 \<le> length c then divided (parseInt (substring c 6 8) 16) 255 else Num 1)\<rparr>"
    using assms(2)
    by (simp add: parseColorWithAlpha_def Let_def c_def [symmetric] substring_def [of c 0 6] e)
      (auto simp add: t substring_def)
  show "\<not> number_start (c ! 0) \<Longrightarrow> pc_r (parseColorWithAlpha hex) = NaN"
    by (simp add: p n parseInt_not_number divided_def)
  show "\<not> number_start (c ! 2) \<Longrightarrow> pc_g (parseColorWithAlpha hex) = NaN"
    by (simp add: p n parseInt_not_number divided_def)
  show "\<not> number_start (c ! 4) \<Longrightarrow> pc_b (parseColorWithAlpha hex) = NaN"
    by (simp add: p n parseInt_not_number divided_def)
qed

text \<open>
  C3 (amended). \<open>parseColorWithAlpha\<close> is total and has no error case: on every input
  it returns a colour each of whose channels is \<open>NaN\<close> or \<open>k / 255\<close> for an integer
  \<open>k\<close> between -255 and 255. For an input with at most one leading hash sign whose
  cleaned string has 0, 4 or 5 characters it returns opaque black. Characters that are
  not hexadecimal digits do not select the fallback: for a cleaned string of six or more
  characters that does not begin with a further hash sign, a channel whose two-character
  slice begins with a character that is neither a hexadecimal digit, nor white space, nor
  a sign is \<open>NaN\<close>.
\<close>

theorem parseColorWithAlpha_fallback:
  fixes hex
  defines "c \<equiv> toUpperCase (strip_hash hex)"
  shows "(length c \<in> {0, 4, 5} \<and> (c = [] \<or> hd c \<noteq> CHR ''#'') \<longrightarrow>
           parseColorWithAlpha hex = \<lparr>pc_r = Num 0, pc_g = Num 0, pc_b = Num 0, pc_a = Num 1\<rparr>) \<and>
         (6 \<le> length c \<and> hd c \<noteq> CHR ''#'' \<longrightarrow>
           (\<not> number_start (c ! 0) \<longrightarrow> pc_r (parseColorWithAlpha hex) = NaN) \<and>
           (\<not> number_start (c ! 2) \<longrightarrow> pc_g (parseColorWithAlpha hex) = NaN) \<and>
           (\<not> number_start (c ! 4) \<longrightarrow> pc_b (parseColorWithAlpha hex) = NaN)) \<and>
         channel_ok (pc_r (parseColorWithAlpha hex)) \<and> channel_ok (pc_g (parseColorWithAlpha hex)) \<and>
         channel_ok (pc_b (parseColorWithAlpha hex)) \<and> channel_ok (pc_a (parseColorWithAlpha hex))"
proof -
  have 1: "length c \<in> {0, 4, 5} \<and> (c = [] \<or> hd c \<noteq> CHR ''#'') \<longrightarrow>
           parseColorWithAlpha hex = \<lparr>pc_r = Num 0, pc_g = Num 0, pc_b = Num 0, pc_a = Num 1\<rparr>"
    unfolding c_def using parse_fallback [of hex] by blast
  have 2: "6 \<le> length c \<and> hd c \<noteq> CHR ''#'' \<longrightarrow>
           (\<not> number_start (c ! 0) \<longrightarrow> pc_r (parseColorWithAlpha hex) = NaN) \<and>
           (\<not> number_start (c ! 2) \<longrightarrow> pc_g (parseColorWithAlpha hex) = NaN) \<and>
           (\<not> number_start (c ! 4) \<longrightarrow> pc_b (parseColorWithAlpha hex) = NaN)"
    unfolding c_def using parse_nan_channels [of hex] by blast
  from 1 2 parse_channels_ok [of hex] show ?thesis by blast
qed

lemma cleaned_examples2:
  "toUpperCase (strip_hash ''#ABCD'') = ''ABCD''"
  "toUpperCase (strip_hash ''1G+F-x'') = ''1G+F-X''"
  "number_start CHR ''1''" "number_start CHR ''+''" "\<not> number_start CHR ''G''"
  "\<not> number_start CHR ''X''" "number_start CHR ''-''"
  by code_simp+

theorem parseColorWithAlpha_fallback_witness:
  "parseColorWithAlpha ''#ABCD'' = \<lparr>pc_r = Num 0, pc_g = Num 0, pc_b = Num 0, pc_a = Num 1\<rparr> \<and>
   pc_r (parseColorWithAlpha ''GGGGGG'') = NaN \<and> pc_g (parseColorWithAlpha ''GGGGGG'') = NaN \<and>
   pc_b (parseColorWithAlpha ''GGGGGG'') = NaN \<and>
   channel_ok (pc_g (parseColorWithAlpha ''1G+F-x''))"
  using parseColorWithAlpha_fallback [of "''#ABCD''"] parseColorWithAlpha_fallback [of "''GGGGGG''"]
    parseColorWithAlpha_fallback [of "''1G+F-x''"]
  by (simp add: cleaned_examples2 toUpperCase_def toUpperCase_char_def strip_hash_def)

theorem parseColorWithAlpha_fallback_counterexample:
  "parseColorWithAlpha ''GGGGGG'' = \<lparr>pc_r = NaN, pc_g = NaN, pc_b = NaN, pc_a = Num 1\<rparr> \<and>
   parseColorWithAlpha ''GGGGGG'' \<noteq> \<lparr>pc_r = Num 0, pc_g = Num 0, pc_b = Num 0, pc_a = Num 1\<rparr> \<and>
   length (toUpperCase (strip_hash ''##ABC'')) = 4 \<and>
   parseColorWithAlpha ''##ABC'' \<noteq> \<lparr>pc_r = Num 0, pc_g = Num 0, pc_b = Num 0, pc_a = Num 1\<rparr>"
  by code_simp

text \<open>A slice that begins with a sign or with white space can still be a number.\<close>

lemma parse_sign_slice:
  "parseColorWithAlpha ''1G+F-x'' = \<lparr>pc_r = Num (1/255), pc_g = Num (15/255), pc_b = NaN, pc_a = Num 1\<rparr>"
  by code_simp

text \<open>
  C4 (amended). Normalisation to hex8 is idempotent on every input whose four parsed
  channels are numbers: if no channel of \<open>parseColorWithAlpha x\<close> is \<open>NaN\<close> then
  \<open>toHex8 (toHex8 x) = toHex8 x\<close>.
\<close>

theorem toHex8_idempotent_on_numbers:
  assumes "pc_r (parseColorWithAlpha x) \<noteq> NaN" "pc_g (parseColorWithAlpha x) \<noteq> NaN"
    "pc_b (parseColorWithAlpha x) \<noteq> NaN" "pc_a (parseColorWithAlpha x) \<noteq> NaN"
  shows "toHex8 (toHex8 x) = toHex8 x"
proof -
  obtain r' where r': "pc_r (parseColorWithAlpha x) = Num r'"
    using assms(1) by (cases "pc_r (parseColorWithAlpha x)") simp_all
  obtain g' where g': "pc_g (parseColorWithAlpha x) = Num g'"
    using assms(2) by (cases "pc_g (parseColorWithAlpha x)") simp_all
  obtain b' where b': "pc_b (parseColorWithAlpha x) = Num b'"
    using assms(3) by (cases "pc_b (parseColorWithAlpha x)") simp_all
  obtain a' where a': "pc_a (parseColorWithAlpha x) = Num a'"
    using assms(4) by (cases "pc_a (parseColorWithAlpha x)") simp_all
  have "parseColorWithAlpha x = \<lparr>pc_r = Num r', pc_g = Num g', pc_b = Num b', pc_a = Num a'\<rparr>"
    using r' g' b' a' by (cases "parseColorWithAlpha x") simp
  then show ?thesis by (rule toHex8_idem_aux)
qed

lemma parse_abc:
  "parseColorWithAlpha ''#abc'' =
     \<lparr>pc_r = Num (2 / 3), pc_g = Num (11 / 15), pc_b = Num (4 / 5), pc_a = Num 1\<rparr>"
  by code_simp

theorem toHex8_idempotent_on_numbers_witness:
  "pc_r (parseColorWithAlpha ''#abc'') \<noteq> NaN \<and> pc_g (parseColorWithAlpha ''#abc'') \<noteq> NaN \<and>
   pc_b (parseColorWithAlpha ''#abc'') \<noteq> NaN \<and> pc_a (parseColorWithAlpha ''#abc'') \<noteq> NaN \<and>
   toHex8 (toHex8 ''#abc'') = toHex8 ''#abc''"
  using toHex8_idempotent_on_numbers [of "''#abc''"] by (simp add: parse_abc)

theorem toHex8_idempotent_counterexample:
  "toHex8 (toHex8 ''GGGGGG'') \<noteq> toHex8 ''GGGGGG''"
  by code_simp

text \<open>
  C6 (amended). The alpha channel: a cleaned string of eight or more characters that does
  not itself begin with a hash sign takes alpha from characters 7 and 8 (\<open>parseInt\<close> of
  the slice, over 255); one that does begin with a hash sign selects the black fallback,
  whose alpha is 1; exactly seven characters give alpha 1; six or fewer give alpha 1. In
  particular the alpha of \<open>#AABBCC1\<close> is 1.
\<close>

theorem alpha_by_length:
  fixes hex
  defines "c \<equiv> toUpperCase (strip_hash hex)"
  shows "(8 \<le> length c \<and> hd c \<noteq> CHR ''#'' \<longrightarrow>
            pc_a (parseColorWithAlpha hex) = divided (parseInt (substring c 6 8) 16) 255) \<and>
         (8 \<le> length c \<and> hd c = CHR ''#'' \<longrightarrow> pc_a (parseColorWithAlpha hex) = Num 1) \<and>
         (length c = 7 \<longrightarrow> pc_a (parseColorWithAlpha hex) = Num 1) \<and>
         (length c \<le> 6 \<longrightarrow> pc_a (parseColorWithAlpha hex) = Num 1) \<and>
         pc_a (parseColorWithAlpha ''#AABBCC1'') = Num 1"
proof -
  have "8 \<le> length c \<and> hd c = CHR ''#'' \<longrightarrow> pc_a (parseColorWithAlpha hex) = Num 1"
    unfolding c_def using parse_double_hash [of hex] by simp
  moreover have "pc_a (parseColorWithAlpha ''#AABBCC1'') = Num 1"
    using parse_alpha(2) [of "''#AABBCC1''"] by (simp add: strip_hash_def)
  ultimately show ?thesis
    unfolding c_def using parse_alpha [of hex] by simp
qed

lemma cleaned_examples3:
  "toUpperCase (strip_hash ''#ff000080'') = ''FF000080''"
  "parseInt (substring ''FF000080'' 6 8) 16 = Some 128"
  "toUpperCase (strip_hash ''##ABCDEF12'') = ''#ABCDEF12''"
  "toUpperCase (strip_hash ''#AABBCC1'') = ''AABBCC1''"
  "toUpperCase (strip_hash ''#abc'') = ''ABC''"
  by code_simp+

theorem alpha_by_length_witness:
  "pc_a (parseColorWithAlpha ''#ff000080'') = Num (128 / 255) \<and>
   pc_a (parseColorWithAlpha ''##ABCDEF12'') = Num 1 \<and>
   pc_a (parseColorWithAlpha ''#AABBCC1'') = Num 1 \<and>
   pc_a (parseColorWithAlpha ''#abc'') = Num 1"
  using alpha_by_length [of "''#ff000080''"] alpha_by_length [of "''##ABCDEF12''"]
    alpha_by_length [of "''#abc''"]
  by (simp add: cleaned_examples3 divided_def)

theorem alpha_by_length_counterexample:
  "8 \<le> length (toUpperCase (strip_hash ''##ABCDEF12'')) \<and>
   divided (parseInt (substring (toUpperCase (strip_hash ''##ABCDEF12'')) 6 8) 16) 255 = Num (241 / 255) \<and>
   pc_a (parseColorWithAlpha ''##ABCDEF12'') = Num 1 \<and>
   pc_a (parseColorWithAlpha ''##ABCDEF12'') \<noteq>
     divided (parseInt (substring (toUpperCase (strip_hash ''##ABCDEF12'')) 6 8) 16) 255"
  by code_simp

text \<open>
  C7. Round trip: for all \<open>r\<close>, \<open>g\<close>, \<open>b\<close>, \<open>a\<close> in \<open>[0, 1]\<close>, parsing
  \<open>rgbaToHex8 r g b a\<close> gives four numbers, each within \<open>1 / 255\<close> of the input.
\<close>

theorem roundtrip:
  assumes "0 \<le> r" "r \<le> 1" "0 \<le> g" "g \<le> 1" "0 \<le> b" "b \<le> 1" "0 \<le> a" "a \<le> 1"
  shows "\<exists>r' g' b' a'.
      parseColorWithAlpha (rgbaToHex8 (Num r) (Num g) (Num b) (Num a)) =
        \<lparr>pc_r = Num r', pc_g = Num g', pc_b = Num b', pc_a = Num a'\<rparr> \<and>
      \<bar>r' - r\<bar> \<le> 1 / 255 \<and> \<bar>g' - g\<bar> \<le> 1 / 255 \<and>
      \<bar>b' - b\<bar> \<le> 1 / 255 \<and> \<bar>a' - a\<bar> \<le> 1 / 255"
proof (intro exI conjI)
  show "parseColorWithAlpha (rgbaToHex8 (Num r) (Num g) (Num b) (Num a)) =
     \<lparr>pc_r = Num (real (byte_of r) / 255), pc_g = Num (real (byte_of g) / 255),
      pc_b = Num (real (byte_of b) / 255), pc_a = Num (real (byte_of a) / 255)\<rparr>"
    unfolding rgbaToHex8_def toHex_Num by (rule parse_hex8) (rule byte_of_less)+
  show "\<bar>real (byte_of r) / 255 - r\<bar> \<le> 1 / 255" using assms(1,2) by (rule byte_of_close)
  show "\<bar>real (byte_of g) / 255 - g\<bar> \<le> 1 / 255" using assms(3,4) by (rule byte_of_close)
  show "\<bar>real (byte_of b) / 255 - b\<bar> \<le> 1 / 255" using assms(5,6) by (rule byte_of_close)
  show "\<bar>real (byte_of a) / 255 - a\<bar> \<le> 1 / 255" using assms(7,8) by (rule byte_of_close)
qed

theorem roundtrip_witness:
  "\<exists>r' g' b' a'.
      parseColorWithAlpha (rgbaToHex8 (Num (1 / 2)) (Num 0) (Num 1) (Num (1 / 3))) =
        \<lparr>pc_r = Num r', pc_g = Num g', pc_b = Num b', pc_a = Num a'\<rparr> \<and>
      \<bar>r' - 1 / 2\<bar> \<le> 1 / 255 \<and> \<bar>g' - 0\<bar> \<le> 1 / 255 \<and>
      \<bar>b' - 1\<bar> \<le> 1 / 255 \<and> \<bar>a' - 1 / 3\<bar> \<le> 1 / 255"
  using roundtrip [of "1 / 2" 0 1 "1 / 3"] by simp

section \<open>Properties of the colour picker\<close>

lemma options_value_setValue [simp]: "options_value (setValue p v) = options_value p"
  by (simp add: setValue_def Let_def)

lemma options_value_step [simp]: "options_value (picker_step p e) = options_value p"
  by (cases e)
    (simp_all add: onHexInput_def onHexChange_def onPickerChange_def onOpacityInput_def
      onOpacityChange_def emitChange_def Let_def split: option.splits)

lemma options_value_run [simp]: "options_value (picker_run p evs) = options_value p"
  unfolding picker_run_def by (induction evs arbitrary: p) simp_all

lemma options_value_new [simp]: "options_value (new_ColorPicker v ua) = v"
  by (simp add: new_ColorPicker_def)

text \<open>
  C2 (amended). Whenever the content of the hex text field, with the white space at its
  two ends trimmed, does not match the pattern of one to six hexadecimal digits,
  \<open>getValue\<close> returns the value the picker was constructed with, whatever
  \<open>setValue\<close> calls and user edits came after the construction, or \<open>#000000FF\<close>
  when that value is the empty string.
\<close>

theorem getValue_invalid_hex:
  assumes "\<not> hex_pattern (trim (hexInput_value (picker_run (new_ColorPicker v ua) evs)))"
  shows "getValue (picker_run (new_ColorPicker v ua) evs) = (if v = [] then ''#000000FF'' else v)"
  using assms by (simp add: getValue_def getValueFromInputs_def Let_def)

lemma run_example:
  "hexInput_value
     (picker_run (new_ColorPicker ''#FF0000FF'' None) [SetValue ''#00FF00FF'', HexInput '''']) = []"
  by code_simp

theorem getValue_invalid_hex_witness:
  "getValue (picker_run (new_ColorPicker ''#FF0000FF'' None) [SetValue ''#00FF00FF'', HexInput ''''])
     = ''#FF0000FF''"
  using getValue_invalid_hex [of "''#FF0000FF''" None "[SetValue ''#00FF00FF'', HexInput '''']"]
  by (simp add: run_example trim_def hex_pattern_def)

theorem getValue_invalid_hex_counterexample:
  "\<not> hex_pattern (hexInput_value
       (picker_run (new_ColorPicker ''#FF0000FF'' None) [SetValue ''#00FF00FF'', HexInput ''''])) \<and>
   getValue (picker_run (new_ColorPicker ''#FF0000FF'' None) [SetValue ''#00FF00FF'', HexInput ''''])
     = ''#FF0000FF'' \<and>
   getValue (picker_run (new_ColorPicker ''#FF0000FF'' None) [SetValue ''#00FF00FF'', HexInput ''''])
     \<noteq> ''#00FF00FF'' \<and>
   \<not> hex_pattern (hexInput_value
       (picker_run (new_ColorPicker ''#FF0000FF'' None) [HexInput '' ff ''])) \<and>
   getValue (picker_run (new_ColorPicker ''#FF0000FF'' None) [HexInput '' ff '']) = ''#FFFFFFFF'' \<and>
   getValue (picker_run (new_ColorPicker ''#FF0000FF'' None) [HexInput '' ff '']) \<noteq> ''#FF0000FF''"
  by code_simp

subsection \<open>Setting a picker to a hex8 value\<close>

lemma digit_char_10:
  assumes "d < 10"
  shows "radix_digit 10 (digit_char d) = Some d"
    and "isDigit (digit_char d)"
    and "\<not> isWhiteSpace (digit_char d)"
    and "digit_char d \<noteq> CHR ''-''" and "digit_char d \<noteq> CHR ''+''"
proof -
  have o: "(of_char (char_of (48 + d)) :: nat) = 48 + d" using assms by simp
  show r: "radix_digit 10 (digit_char d) = Some d"
    using assms by (simp add: radix_digit_def digit_char_def o Let_def)
  then show "isDigit (digit_char d)" by (simp add: isDigit_def)
  show "\<not> isWhiteSpace (digit_char d)"
    using assms by (simp add: isWhiteSpace_def digit_char_def o Let_def)
  have "(of_char (digit_char d) :: nat) = 48 + d" using assms o by (simp add: digit_char_def)
  then have "(of_char (digit_char d) :: nat) \<noteq> of_char CHR ''-''"
    "(of_char (digit_char d) :: nat) \<noteq> of_char CHR ''+''" by simp_all
  then show "digit_char d \<noteq> CHR ''-''" "digit_char d \<noteq> CHR ''+''" by auto
qed

lemma radix_digits_10:
  "list_all isDigit (radix_digits 10 n) \<and> radix_digits 10 n \<noteq> [] \<and>
   digits_value 10 (radix_digits 10 n) = n"
proof (induction n rule: less_induct)
  case (less n)
  show ?case
  proof (cases "n < 10")
    case True
    then show ?thesis
      using digit_char_10 [OF True] by (simp add: digits_value_def)
  next
    case False
    then have lt: "n div 10 < n" by simp
    have m: "n mod 10 < 10" by simp
    have rd: "radix_digits 10 n = radix_digits 10 (n div 10) @ [digit_char (n mod 10)]"
      using False by (subst radix_digits.simps) simp
    from less.IH [OF lt] digit_char_10 [OF m] show ?thesis
      unfolding rd by (simp add: digits_value_def)
  qed
qed

lemma parseInt_digits:
  assumes "list_all isDigit z" "z \<noteq> []"
  shows "parseInt z 10 = Some (int (digits_value 10 z))"
    and "valid_floating_point_number z"
proof -
  from assms(2) obtain c cs where d: "z = c # cs" by (cases z) auto
  with assms(1) have c: "isDigit c" by simp
  then have r: "48 \<le> (of_char c :: nat) \<and> (of_char c :: nat) \<le> 57"
    by (simp add: isDigit_def radix_digit_def Let_def split: if_splits)
  then have nw: "\<not> isWhiteSpace c" "c \<noteq> CHR ''-''" "c \<noteq> CHR ''+''"
    by (auto simp add: isWhiteSpace_def Let_def)
  have tw: "takeWhile (\<lambda>c. \<exists>y. radix_digit 10 c = Some y) z = z"
    using assms(1) by (simp add: takeWhile_eq_all_conv list_all_iff isDigit_def)
  have dw: "dropWhile isWhiteSpace z = z" using nw by (simp add: d)
  have hd: "hd z \<noteq> CHR ''-''" "hd z \<noteq> CHR ''+''" using nw by (simp_all add: d)
  show "parseInt z 10 = Some (int (digits_value 10 z))"
    unfolding parseInt_def dw Let_def using hd assms(2) by (simp add: tw)
  have tw2: "takeWhile isDigit z = z" "dropWhile isDigit z = []"
    using assms(1) by (simp_all add: takeWhile_eq_all_conv list_all_iff)
  show "valid_floating_point_number z"
    unfolding valid_floating_point_number_def Let_def using hd assms(2)
    by (simp add: tw2 exponent_ok_def)
qed

lemma decimal_roundtrip:
  "parseInt (radix_digits 10 n) 10 = Some (int n)"
  "number_input_value (radix_digits 10 n) = radix_digits 10 n"
proof -
  from radix_digits_10 [of n] have all: "list_all isDigit (radix_digits 10 n)"
    and ne: "radix_digits 10 n \<noteq> []"
    and v: "digits_value 10 (radix_digits 10 n) = n" by blast+
  show "parseInt (radix_digits 10 n) 10 = Some (int n)"
    using parseInt_digits(1) [OF all ne] by (simp only: v)
  show "number_input_value (radix_digits 10 n) = radix_digits 10 n"
    using parseInt_digits(2) [OF all ne] by (simp only: number_input_value_def if_True)
qed

lemma hexc_no_break:
  assumes "d < 16"
  shows "hexc d \<noteq> CHR 0x0A" "hexc d \<noteq> CHR 0x0D"
  using hexc_props(2) [OF assms] by (auto simp add: isWhiteSpace_def)

lemma hex6_props:
  assumes "kr < 256" "kg < 256" "kb < 256"
  defines "h \<equiv> hex_byte kr @ hex_byte kg @ hex_byte kb"
  shows "trim h = h" and "hex_pattern h" and "expandColor h = h"
    and "text_input_value h = h" and "substring h 0 6 = h"
    and "substring h 0 2 = hex_byte kr" and "substring h 2 4 = hex_byte kg"
    and "substring h 4 6 = hex_byte kb"
proof -
  have d: "kr div 16 < 16" "kr mod 16 < 16" "kg div 16 < 16" "kg mod 16 < 16"
    "kb div 16 < 16" "kb mod 16 < 16"
    using assms by auto
  show "trim h = h"
    using d by (simp add: h_def trim_def hex_byte_def hexc_props)
  show "hex_pattern h"
    using d by (simp add: h_def hex_pattern_def hex_byte_def hexc_props)
  have nohash: "strip_hash h = h"
    using d by (simp add: h_def strip_hash_def hex_byte_def hexc_props)
  have up: "toUpperCase h = h"
    using d by (simp add: h_def toUpperCase_def hex_byte_def hexc_props)
  show "expandColor h = h"
    by (simp add: expandColor_def nohash up Let_def) (simp add: h_def hex_byte_def)
  show "text_input_value h = h"
    using d by (simp add: h_def text_input_value_def hex_byte_def hexc_no_break)
  show "substring h 0 6 = h" "substring h 0 2 = hex_byte kr" "substring h 2 4 = hex_byte kg"
    "substring h 4 6 = hex_byte kb"
    by (simp_all add: h_def substring_def hex_byte_def)
qed

lemma round_byte: "Math_round (times (Num (real k / 255)) 255) = Some (int k)"
proof -
  have "\<lfloor>real k + 1 / 2\<rfloor> = int k" by linarith
  then show ?thesis by (simp add: Math_round_def times_def)
qed

lemma percent_bounds:
  assumes "ka < 256"
  shows "0 \<le> \<lfloor>real ka / 255 * 100 + 1 / 2\<rfloor>" and "\<lfloor>real ka / 255 * 100 + 1 / 2\<rfloor> \<le> (100::int)"
proof -
  show "0 \<le> \<lfloor>real ka / 255 * 100 + 1 / 2\<rfloor>" by simp
  from assms have "real ka \<le> 255" by simp
  then have "real ka / 255 * 100 + 1 / 2 < 101" by simp
  then show "\<lfloor>real ka / 255 * 100 + 1 / 2\<rfloor> \<le> (100::int)" by linarith
qed

lemma setValue_hex8:
  assumes k: "kr < 256" "kg < 256" "kb < 256" "ka < 256"
    and op: "opacityInput_value p = Some old"
  defines "v \<equiv> CHR ''#'' # hex_byte kr @ hex_byte kg @ hex_byte kb @ hex_byte ka"
  defines "q \<equiv> \<lfloor>real ka / 255 * 100 + 1 / 2\<rfloor>"
  shows "hexInput_value (setValue p v) = hex_byte kr @ hex_byte kg @ hex_byte kb"
    and "opacityInput_value (setValue p v) = Some (radix_digits 10 (nat q))"
    and "options_value (setValue p v) = options_value p"
proof -
  let ?h = "hex_byte kr @ hex_byte kg @ hex_byte kb"
  have pv: "parseColorWithAlpha v =
    \<lparr>pc_r = Num (real kr / 255), pc_g = Num (real kg / 255),
     pc_b = Num (real kb / 255), pc_a = Num (real ka / 255)\<rparr>"
    unfolding v_def using k by (rule parse_hex8)
  have ne: "v \<noteq> []" by (simp add: v_def)
  have hex6: "toUpperCase
      (padStart (Number_toString (Math_round (times (Num (real kr / 255)) 255)) 16) 2 CHR ''0'' @
       padStart (Number_toString (Math_round (times (Num (real kg / 255)) 255)) 16) 2 CHR ''0'' @
       padStart (Number_toString (Math_round (times (Num (real kb / 255)) 255)) 16) 2 CHR ''0'') = ?h"
    using toString_hex_byte [OF k(1)] toString_hex_byte [OF k(2)] toString_hex_byte [OF k(3)]
    unfolding round_byte by (simp add: toUpperCase_def)
  note hp = hex6_props [OF k(1,2,3)]
  show "hexInput_value (setValue p v) = ?h"
    by (simp add: setValue_def ne pv Let_def hex6 hp)
  have ma: "Math_round (times (Num (real ka / 255)) 100) = Some q"
    by (simp add: Math_round_def times_def q_def)
  have q0: "0 \<le> q" unfolding q_def by (rule percent_bounds [OF k(4)])
  have ts: "Number_toString (Some q) 10 = radix_digits 10 (nat q)"
    using q0 by (simp add: Number_toString_def)
  show "opacityInput_value (setValue p v) = Some (radix_digits 10 (nat q))"
    by (simp add: setValue_def ne pv Let_def op ma ts decimal_roundtrip del: radix_digits.simps)
  show "options_value (setValue p v) = options_value p" by simp
qed

lemma getValue_setValue_hex8:
  assumes k: "kr < 256" "kg < 256" "kb < 256" "ka < 256"
    and op: "opacityInput_value p = Some old"
  defines "v \<equiv> CHR ''#'' # hex_byte kr @ hex_byte kg @ hex_byte kb @ hex_byte ka"
  shows "getValue (setValue p v) =
     rgbaToHex8 (Num (real kr / 255)) (Num (real kg / 255)) (Num (real kb / 255))
       (whole_percent (Num (real ka / 255)))"
proof -
  define q where "q = \<lfloor>real ka / 255 * 100 + 1 / 2\<rfloor>"
  note s = setValue_hex8 [OF k op, folded v_def, folded q_def]
  note hp = hex6_props [OF k(1,2,3)]
  have q0: "0 \<le> q" "q \<le> 100" unfolding q_def by (rule percent_bounds [OF k(4)])+
  have "int (nat q) = q" using q0 by simp
  then have pi: "parseInt (radix_digits 10 (nat q)) 10 = Some q"
    by (simp only: decimal_roundtrip)
  have wp: "whole_percent (Num (real ka / 255)) = Num (real_of_int q / 100)"
    by (simp add: whole_percent_def Math_round_def times_def divided_def q_def)
  have mm: "max 0 (min 100 q) = q" using q0 by simp
  show ?thesis
    unfolding getValue_def getValueFromInputs_def s Let_def hp wp
    using k by (simp add: hp parseInt_hex_byte divided_def pi mm del: radix_digits.simps)
qed

lemma toHex8_numeric:
  assumes "pc_r (parseColorWithAlpha x) \<noteq> NaN" "pc_g (parseColorWithAlpha x) \<noteq> NaN"
    "pc_b (parseColorWithAlpha x) \<noteq> NaN" "pc_a (parseColorWithAlpha x) \<noteq> NaN"
  shows "\<exists>kr kg kb ka. kr < 256 \<and> kg < 256 \<and> kb < 256 \<and> ka < 256 \<and>
    toHex8 x = CHR ''#'' # hex_byte kr @ hex_byte kg @ hex_byte kb @ hex_byte ka"
proof -
  obtain r' where r': "pc_r (parseColorWithAlpha x) = Num r'"
    using assms(1) by (cases "pc_r (parseColorWithAlpha x)") simp_all
  obtain g' where g': "pc_g (parseColorWithAlpha x) = Num g'"
    using assms(2) by (cases "pc_g (parseColorWithAlpha x)") simp_all
  obtain b' where b': "pc_b (parseColorWithAlpha x) = Num b'"
    using assms(3) by (cases "pc_b (parseColorWithAlpha x)") simp_all
  obtain a' where a': "pc_a (parseColorWithAlpha x) = Num a'"
    using assms(4) by (cases "pc_a (parseColorWithAlpha x)") simp_all
  have "toHex8 x = CHR ''#'' # hex_byte (byte_of r') @ hex_byte (byte_of g') @
      hex_byte (byte_of b') @ hex_byte (byte_of a')"
    by (simp add: toHex8_def rgbaToHex8_def toHex_Num Let_def r' g' b' a')
  then show ?thesis using byte_of_less by blast
qed

lemma getValue_setValue_numeric:
  assumes num: "pc_r (parseColorWithAlpha x) \<noteq> NaN" "pc_g (parseColorWithAlpha x) \<noteq> NaN"
    "pc_b (parseColorWithAlpha x) \<noteq> NaN" "pc_a (parseColorWithAlpha x) \<noteq> NaN"
    and op: "opacityInput_value p \<noteq> None"
  defines "cv \<equiv> toHex8 x"
  defines "c \<equiv> parseColorWithAlpha cv"
  shows "hexInput_value (setValue p cv) = substring cv 1 7"
    and "opacityInput_value (setValue p cv) =
      Some (Number_toString (Math_round (times (pc_a c) 100)) 10)"
    and "getValue (setValue p cv) =
      rgbaToHex8 (pc_r c) (pc_g c) (pc_b c) (whole_percent (pc_a c))"
    and "getValue (setValue p cv) = cv \<longleftrightarrow> toHex (whole_percent (pc_a c)) = toHex (pc_a c)"
proof -
  obtain kr kg kb ka where k: "kr < 256" "kg < 256" "kb < 256" "ka < 256"
    and cv: "cv = CHR ''#'' # hex_byte kr @ hex_byte kg @ hex_byte kb @ hex_byte ka"
    using toHex8_numeric [OF num] unfolding cv_def by blast
  from op obtain old where old: "opacityInput_value p = Some old" by auto
  have c: "c = \<lparr>pc_r = Num (real kr / 255), pc_g = Num (real kg / 255),
     pc_b = Num (real kb / 255), pc_a = Num (real ka / 255)\<rparr>"
    unfolding c_def cv using k by (rule parse_hex8)
  note s = setValue_hex8 [OF k old, folded cv]
  show "hexInput_value (setValue p cv) = substring cv 1 7"
    unfolding s(1) by (simp add: cv substring_def hex_byte_def)
  have q0: "0 \<le> \<lfloor>real ka / 255 * 100 + 1 / 2\<rfloor>" by (rule percent_bounds [OF k(4)])
  show "opacityInput_value (setValue p cv) =
      Some (Number_toString (Math_round (times (pc_a c) 100)) 10)"
    unfolding s(2) using q0
    by (simp add: c Math_round_def times_def Number_toString_def del: radix_digits.simps)
  show g: "getValue (setValue p cv) =
      rgbaToHex8 (pc_r c) (pc_g c) (pc_b c) (whole_percent (pc_a c))"
    using getValue_setValue_hex8 [OF k old, folded cv] by (simp add: c)
  have "cv = rgbaToHex8 (pc_r c) (pc_g c) (pc_b c) (pc_a c)"
    unfolding cv c using k by (simp add: rgbaToHex8_def toHex_Num byte_of_byte)
  then show "getValue (setValue p cv) = cv \<longleftrightarrow> toHex (whole_percent (pc_a c)) = toHex (pc_a c)"
    unfolding g by (simp add: rgbaToHex8_def)
qed

section \<open>Properties of the rows\<close>

text \<open>
  C8. The text of an expression is put between double quotes as the \<open>value\<close> attribute
  of an input, after \<open>escapeHtml\<close>. A double quote passes \<open>escapeHtml\<close> unchanged, so
  for the expression \<open>" autofocus onfocus="alert(1)"\<close> the parser reads an empty value,
  and the rest of the expression is read as further attributes of the input element.
\<close>

theorem escapeHtml_attribute_injection:
  "escapeHtml (dq # '' autofocus onfocus='' @ quoted ''alert(1)'') =
     dq # '' autofocus onfocus='' @ quoted ''alert(1)'' \<and>
   fst (attribute_value_double_quoted (find_after (''value='' @ [dq])
     (createRow_markup
        \<lparr>expression = dq # '' autofocus onfocus='' @ quoted ''alert(1)'',
         color = ''#FF0000FF'', occurrences = None\<rparr> 0))) = [] \<and>
   take 29 (snd (attribute_value_double_quoted (find_after (''value='' @ [dq])
     (createRow_markup
        \<lparr>expression = dq # '' autofocus onfocus='' @ quoted ''alert(1)'',
         color = ''#FF0000FF'', occurrences = None\<rparr> 0)))) =
     '' autofocus onfocus='' @ quoted ''alert(1)''"
  by code_simp

text \<open>
  C10. A field update at an index where the style list has no record writes nothing: the
  store is unchanged and no error is cleared. \<open>onUpdate\<close> writes to the store exactly
  when a record exists at the index.
\<close>

theorem onUpdate_without_record:
  "(\<not> index < length (getStyles store) \<longrightarrow>
      onUpdate store index field v = \<lparr>store_after = store, cleared = [], wrote = False\<rparr>) \<and>
   (wrote (onUpdate store index field v) \<longleftrightarrow> index < length (getStyles store))"
  by (simp add: onUpdate_def Let_def)

theorem onUpdate_without_record_witness:
  "onUpdate \<lparr>subExpressionStyles = [\<lparr>expression = ''x'', color = ''#FF0000FF'', occurrences = None\<rparr>]\<rparr>
     3 ''color'' ''#00FF00FF'' =
     \<lparr>store_after =
        \<lparr>subExpressionStyles = [\<lparr>expression = ''x'', color = ''#FF0000FF'', occurrences = None\<rparr>]\<rparr>,
      cleared = [], wrote = False\<rparr> \<and>
   wrote (onUpdate
     \<lparr>subExpressionStyles = [\<lparr>expression = ''x'', color = ''#FF0000FF'', occurrences = None\<rparr>]\<rparr>
     0 ''color'' ''#00FF00FF'')"
  using onUpdate_without_record
      [of 3 "\<lparr>subExpressionStyles = [\<lparr>expression = ''x'', color = ''#FF0000FF'', occurrences = None\<rparr>]\<rparr>"
        "''color''" "''#00FF00FF''"]
    onUpdate_without_record
      [of 0 "\<lparr>subExpressionStyles = [\<lparr>expression = ''x'', color = ''#FF0000FF'', occurrences = None\<rparr>]\<rparr>"
        "''color''" "''#00FF00FF''"]
  by (simp add: getStyles_def)

subsection \<open>Reading the start tag of an input\<close>

lemma createRow_markup_value_tail:
  "createRow_markup style index =
     (nl @ ''      <input type='' @ quoted ''text'' @ '' class='' @ quoted ''subexpression-tex'' @
      '' placeholder='' @ quoted ''exp'' @ '' value='' @ [dq]) @
     escapeHtml (expression style) @ value_tail index @
     (nl @ ''      <div class='' @ quoted ''color-inputs'' @ '' data-row-index='' @
      quoted (Number_toString (Some (int index)) 10) @ ''></div>'' @ nl @
      ''      <input type='' @ quoted ''text'' @ '' class='' @ quoted ''subexpression-occurrence'' @
      '' placeholder='' @ quoted ''1,2 ...'' @ '' value='' @ [dq]) @
     escapeHtml (case occurrences style of None \<Rightarrow> [] | Some v \<Rightarrow> v) @ value_tail index @
     (nl @ ''      <button data-row-index='' @ quoted (Number_toString (Some (int index)) 10) @
      ''>'' @ [CHR 0xE2, CHR 0x88, CHR 0x92] @ ''</button>'' @ nl @
      ''      <div class='' @ quoted ''error-message error-tex'' @ '' style='' @
      quoted ''display: none;'' @ ''></div>'' @ nl @
      ''      <div class='' @ quoted ''error-message error-color'' @ '' style='' @
      quoted ''display: none;'' @ ''></div>'' @ nl @
      ''      <div class='' @ quoted ''error-message error-occurrence'' @ '' style='' @
      quoted ''display: none;'' @ ''></div>'' @ nl @
      ''      <div class='' @ quoted ''grid-spacer'' @ ''></div>'' @ nl @
      ''    '')"
  by (simp add: createRow_markup_def value_tail_def quoted_def Let_def del: radix_digits.simps)

lemma attr_step_emitted:
  "attr_step st c = TagEmitted \<Longrightarrow> st = TagEmitted \<or> c = CHR ''>''"
  by (cases st)
    (auto simp add: attribute_name_state_def after_attribute_name_state_def
      before_attribute_name_state_def attribute_value_unquoted_state_def
      before_attribute_value_state_def after_attribute_value_quoted_state_def
      self_closing_start_tag_state_def split: if_splits)

lemma not_emitted:
  "st \<noteq> TagEmitted \<Longrightarrow> CHR ''>'' \<notin> set xs \<Longrightarrow> foldl attr_step st xs \<noteq> TagEmitted"
proof (induction xs arbitrary: st)
  case Nil
  then show ?case by simp
next
  case (Cons x xs)
  from Cons.prems have "attr_step st x \<noteq> TagEmitted"
    using attr_step_emitted [of st x] by auto
  then show ?case using Cons.IH [of "attr_step st x"] Cons.prems by simp
qed

lemma escapeHtml_no_gt: "CHR ''>'' \<notin> set (escapeHtml text)"
  by (auto simp add: escapeHtml_def split: if_splits)

lemma tail_prefix:
  "foldl attr_step AttributeValueDoubleQuoted
     ([dq] @ '' '' @ nl @ ''             data-row-index='' @ [dq]) = AttributeValueDoubleQuoted"
  "foldl attr_step AttributeValueSingleQuoted
     ([dq] @ '' '' @ nl @ ''             data-row-index='' @ [dq]) = AttributeValueSingleQuoted"
  "foldl attr_step AttributeValueUnquoted
     ([dq] @ '' '' @ nl @ ''             data-row-index='' @ [dq]) = AttributeValueDoubleQuoted"
  "foldl attr_step AfterAttributeValueQuoted
     ([dq] @ '' '' @ nl @ ''             data-row-index='' @ [dq]) = AttributeValueDoubleQuoted"
  "foldl attr_step BeforeAttributeName
     ([dq] @ '' '' @ nl @ ''             data-row-index='' @ [dq]) = AttributeValueDoubleQuoted"
  "foldl attr_step AttributeName
     ([dq] @ '' '' @ nl @ ''             data-row-index='' @ [dq]) = AttributeValueDoubleQuoted"
  "foldl attr_step AfterAttributeName
     ([dq] @ '' '' @ nl @ ''             data-row-index='' @ [dq]) = AttributeValueDoubleQuoted"
  "foldl attr_step BeforeAttributeValue
     ([dq] @ '' '' @ nl @ ''             data-row-index='' @ [dq]) = AfterAttributeValueQuoted"
  "foldl attr_step SelfClosingStartTag
     ([dq] @ '' '' @ nl @ ''             data-row-index='' @ [dq]) = AttributeValueDoubleQuoted"
  by code_simp+

lemma digit_steps:
  assumes "isDigit c"
  shows "attr_step AttributeValueDoubleQuoted c = AttributeValueDoubleQuoted"
    and "attr_step AttributeValueSingleQuoted c = AttributeValueSingleQuoted"
    and "attr_step AfterAttributeValueQuoted c = AttributeName"
    and "attr_step AttributeName c = AttributeName"
proof -
  from assms have r: "48 \<le> (of_char c :: nat) \<and> (of_char c :: nat) \<le> 57"
    by (simp add: isDigit_def radix_digit_def Let_def split: if_splits)
  then have n: "c \<noteq> dq" "c \<noteq> CHR 0x27" "\<not> html_space c" "c \<noteq> CHR ''/''" "c \<noteq> CHR ''>''"
    "c \<noteq> CHR ''=''"
    by (auto simp add: dq_def html_space_def)
  show "attr_step AttributeValueDoubleQuoted c = AttributeValueDoubleQuoted"
    "attr_step AttributeValueSingleQuoted c = AttributeValueSingleQuoted"
    "attr_step AfterAttributeValueQuoted c = AttributeName"
    "attr_step AttributeName c = AttributeName"
    using n by (simp_all add: after_attribute_value_quoted_state_def
        before_attribute_name_state_def attribute_name_state_def)
qed

lemma digits_steps:
  assumes "list_all isDigit ds"
  shows "foldl attr_step AttributeValueDoubleQuoted ds = AttributeValueDoubleQuoted"
    and "foldl attr_step AttributeValueSingleQuoted ds = AttributeValueSingleQuoted"
    and "foldl attr_step AttributeName ds = AttributeName"
    and "ds \<noteq> [] \<Longrightarrow> foldl attr_step AfterAttributeValueQuoted ds = AttributeName"
proof -
  show "foldl attr_step AttributeValueDoubleQuoted ds = AttributeValueDoubleQuoted"
    using assms by (induction ds) (simp_all add: digit_steps del: attr_step.simps)
  show "foldl attr_step AttributeValueSingleQuoted ds = AttributeValueSingleQuoted"
    using assms by (induction ds) (simp_all add: digit_steps del: attr_step.simps)
  show an: "foldl attr_step AttributeName ds = AttributeName"
    using assms by (induction ds) (simp_all add: digit_steps del: attr_step.simps)
  show "ds \<noteq> [] \<Longrightarrow> foldl attr_step AfterAttributeValueQuoted ds = AttributeName"
    using assms an by (cases ds) (simp_all add: digit_steps del: attr_step.simps)
qed

lemma tail_suffix:
  "foldl attr_step AttributeValueDoubleQuoted ([dq] @ ''>'') = TagEmitted"
  "foldl attr_step AttributeName ([dq] @ ''>'') = TagEmitted"
  "foldl attr_step AttributeValueSingleQuoted ([dq] @ ''>'') = AttributeValueSingleQuoted"
  by code_simp+

lemma value_tail_steps:
  "foldl attr_step st (value_tail index) =
     (if st = AttributeValueSingleQuoted then AttributeValueSingleQuoted else TagEmitted)"
proof -
  define ds where "ds = radix_digits 10 index"
  define pre where "pre = [dq] @ '' '' @ nl @ ''             data-row-index='' @ [dq]"
  define post where "post = [dq] @ ''>''"
  have ds: "list_all isDigit ds" "ds \<noteq> []"
    using radix_digits_10 [of index] by (simp_all add: ds_def)
  have vt: "value_tail index = pre @ ds @ post"
    by (simp add: value_tail_def quoted_def Number_toString_def ds_def pre_def post_def
        del: radix_digits.simps)
  have em: "foldl attr_step TagEmitted xs = TagEmitted" for xs
    by (induction xs) simp_all
  note p = tail_prefix [folded pre_def]
  note q = tail_suffix [folded post_def]
  note d = digits_steps(1,2,3) [OF ds(1)] digits_steps(4) [OF ds]
  show ?thesis
    unfolding vt foldl_append
    by (cases st) (simp_all add: p d q em del: attr_step.simps foldl_append)
qed

lemma tag_closes_iff:
  "tag_closes text index \<longleftrightarrow>
     foldl attr_step AttributeValueDoubleQuoted (escapeHtml text) \<noteq> AttributeValueSingleQuoted"
  unfolding tag_closes_def foldl_append value_tail_steps by simp

lemma double_quoted_steps:
  "dq \<notin> set xs \<Longrightarrow>
     foldl attr_step AttributeValueDoubleQuoted xs = AttributeValueDoubleQuoted"
  by (induction xs) auto

lemma tag_closes_without_quote:
  assumes "dq \<notin> set text"
  shows "tag_closes text index"
proof -
  have "dq \<notin> set (escapeHtml text)"
    using assms by (auto simp add: escapeHtml_def dq_def split: if_splits)
  then have "foldl attr_step AttributeValueDoubleQuoted (escapeHtml text) =
      AttributeValueDoubleQuoted"
    by (rule double_quoted_steps)
  then show ?thesis by (simp add: tag_closes_iff)
qed

lemma rows_parse_without_quotes:
  assumes "\<forall>style \<in> set styles. dq \<notin> set (expression style) \<and>
    dq \<notin> set (case occurrences style of None \<Rightarrow> [] | Some v \<Rightarrow> v)"
  shows "rows_parse styles"
proof -
  have t: "tag_closes (expression st) i \<and>
      tag_closes (case occurrences st of None \<Rightarrow> [] | Some v \<Rightarrow> v) i"
    if "st \<in> set styles" for st i
  proof -
    from assms that have "dq \<notin> set (expression st)"
      "dq \<notin> set (case occurrences st of None \<Rightarrow> [] | Some v \<Rightarrow> v)"
      by blast+
    then show ?thesis by (blast intro: tag_closes_without_quote)
  qed
  have "\<forall>x \<in> set (zip [0..<length styles] styles).
      tag_closes (expression (snd x)) (fst x) \<and>
      tag_closes (case occurrences (snd x) of None \<Rightarrow> [] | Some v \<Rightarrow> v) (fst x)"
  proof
    fix x assume "x \<in> set (zip [0..<length styles] styles)"
    then have "(fst x, snd x) \<in> set (zip [0..<length styles] styles)" by simp
    then have "snd x \<in> set styles" by (rule set_zip_rightD)
    then show "tag_closes (expression (snd x)) (fst x) \<and>
      tag_closes (case occurrences (snd x) of None \<Rightarrow> [] | Some v \<Rightarrow> v) (fst x)"
      by (rule t)
  qed
  then show ?thesis
    unfolding rows_parse_def list_all_iff by (simp add: split_beta)
qed

section \<open>Properties of the reconciliation\<close>

subsection \<open>Iteration over a list with its indices\<close>

lemma forEach_index_invariant:
  assumes "P i s"
    and "\<And>x j t. i \<le> j \<Longrightarrow> j < i + length xs \<Longrightarrow> P j t \<Longrightarrow> P (Suc j) (f x j t)"
  shows "P (i + length xs) (forEach_index f xs i s)"
  using assms
proof (induction xs arbitrary: i s)
  case Nil
  then show ?case by simp
next
  case (Cons x xs)
  have "P (Suc i) (f x i s)" using Cons.prems by simp
  moreover have "\<And>y j t. Suc i \<le> j \<Longrightarrow> j < Suc i + length xs \<Longrightarrow> P j t \<Longrightarrow> P (Suc j) (f y j t)"
    using Cons.prems(2) by simp
  ultimately have "P (Suc i + length xs) (forEach_index f xs (Suc i) (f x i s))"
    by (rule Cons.IH)
  then show ?case by simp
qed

lemma forEach_index_throw_invariant:
  assumes "P i s"
    and "\<And>j t. i \<le> j \<Longrightarrow> j < i + length xs \<Longrightarrow> P j t \<Longrightarrow>
           snd (f (xs ! (j - i)) j t) = None \<and> P (Suc j) (fst (f (xs ! (j - i)) j t))"
  shows "snd (forEach_index_throw f xs i s) = None \<and>
         P (i + length xs) (fst (forEach_index_throw f xs i s))"
  using assms
proof (induction xs arbitrary: i s)
  case Nil
  then show ?case by simp
next
  case (Cons x xs)
  have "snd (f ((x # xs) ! (i - i)) i s) = None \<and> P (Suc i) (fst (f ((x # xs) ! (i - i)) i s))"
    by (rule Cons.prems(2)) (simp_all add: Cons.prems(1))
  then obtain s' where s': "f x i s = (s', None)" "P (Suc i) s'"
    by (cases "f x i s") auto
  have step: "snd (f (xs ! (j - Suc i)) j t) = None \<and> P (Suc j) (fst (f (xs ! (j - Suc i)) j t))"
    if "Suc i \<le> j" "j < Suc i + length xs" "P j t" for j t
  proof -
    from that have "(x # xs) ! (j - i) = xs ! (j - Suc i)"
      by (simp add: nth_Cons split: nat.splits) (metis Suc_diff_Suc Suc_le_lessD nat.inject)
    moreover have "snd (f ((x # xs) ! (j - i)) j t) = None \<and>
        P (Suc j) (fst (f ((x # xs) ! (j - i)) j t))"
      using that by (intro Cons.prems(2)) simp_all
    ultimately show ?thesis by simp
  qed
  have "snd (forEach_index_throw f xs (Suc i) s') = None \<and>
      P (Suc i + length xs) (fst (forEach_index_throw f xs (Suc i) s'))"
    using s'(2) step by (rule Cons.IH)
  then show ?case by (simp add: s'(1))
qed

subsection \<open>Collecting the rows of the container\<close>

lemma collect_rows_snoc:
  "collect_rows (rows @ [(rid, el)]) =
     (let (currentRowIndices, existingRowElements) = collect_rows rows
      in if data_row_index el \<ge> 0
         then (let index = nat (data_row_index el)
               in (if index \<in> set currentRowIndices then currentRowIndices
                   else currentRowIndices @ [index],
                   existingRowElements(index \<mapsto> rid)))
         else (currentRowIndices, existingRowElements))"
  by (simp add: collect_rows_def Let_def split: prod.splits)

lemma collect_rows_indexed:
  assumes "map (\<lambda>(rid, el). data_row_index el) rows = map int [0..<length rows]"
  shows "collect_rows rows =
     ([0..<length rows], \<lambda>i. if i < length rows then Some (fst (rows ! i)) else None)"
  using assms
proof (induction rows rule: rev_induct)
  case Nil
  show ?case by (simp add: collect_rows_def)
next
  case (snoc x rows)
  obtain rid el where x: "x = (rid, el)" by (cases x)
  from snoc.prems have pre: "map (\<lambda>(rid, el). data_row_index el) rows = map int [0..<length rows]"
    and last: "data_row_index el = int (length rows)"
    by (simp_all add: x)
  have ih: "collect_rows rows =
     ([0..<length rows], \<lambda>i. if i < length rows then Some (fst (rows ! i)) else None)"
    using pre by (rule snoc.IH)
  have "(\<lambda>i. if i < length rows then Some (fst (rows ! i)) else None)(length rows \<mapsto> rid) =
        (\<lambda>i. if i < Suc (length rows) then Some (fst ((rows @ [(rid, el)]) ! i)) else None)"
    by (rule ext) (simp add: nth_append)
  then show ?case
    unfolding x by (simp add: collect_rows_snoc ih last Let_def)
qed

subsection \<open>Removing rows\<close>

lemma remove_row_fields:
  "next_element (remove_row n E x s) = next_element s"
  "lastStyles (remove_row n E x s) = lastStyles s"
  "rowsContainer (remove_row n E x s) =
     filter (\<lambda>(rid, el). \<not> (n \<le> x \<and> E x = Some rid)) (rowsContainer s)"
  "existingRows (remove_row n E x s) =
     (\<lambda>i. if i = x \<and> n \<le> i \<and> E i \<noteq> None then None else existingRows s i)"
  "colorPickersByRow (remove_row n E x s) =
     (\<lambda>i. if i = x \<and> n \<le> i \<and> E i \<noteq> None then None else colorPickersByRow s i)"
  "activeColorPickerIndices (remove_row n E x s) =
     activeColorPickerIndices s - {i. i = x \<and> n \<le> i \<and> E i \<noteq> None}"
  by (auto simp add: remove_row_def fun_eq_iff split: option.splits intro!: filter_cong)

lemma remove_rows_fields:
  "next_element (fold (remove_row n E) xs s) = next_element s"
  "lastStyles (fold (remove_row n E) xs s) = lastStyles s"
  "rowsContainer (fold (remove_row n E) xs s) =
     filter (\<lambda>(rid, el). \<not> (\<exists>j \<in> set xs. n \<le> j \<and> E j = Some rid)) (rowsContainer s)"
  "existingRows (fold (remove_row n E) xs s) =
     (\<lambda>i. if i \<in> set xs \<and> n \<le> i \<and> E i \<noteq> None then None else existingRows s i)"
  "colorPickersByRow (fold (remove_row n E) xs s) =
     (\<lambda>i. if i \<in> set xs \<and> n \<le> i \<and> E i \<noteq> None then None else colorPickersByRow s i)"
  "activeColorPickerIndices (fold (remove_row n E) xs s) =
     activeColorPickerIndices s - {i \<in> set xs. n \<le> i \<and> E i \<noteq> None}"
proof (induction xs arbitrary: s)
  case Nil
  {
    case 1 show ?case by simp
  next
    case 2 show ?case by simp
  next
    case 3 show ?case by simp
  next
    case 4 show ?case by simp
  next
    case 5 show ?case by simp
  next
    case 6 show ?case by simp
  }
next
  case (Cons x xs)
  {
    case 1 show ?case by (simp add: Cons.IH remove_row_fields)
  next
    case 2 show ?case by (simp add: Cons.IH remove_row_fields)
  next
    case 3 show ?case
      by (auto simp add: Cons.IH remove_row_fields intro!: filter_cong)
  next
    case 4 show ?case
      by (auto simp add: Cons.IH remove_row_fields fun_eq_iff)
  next
    case 5 show ?case
      by (auto simp add: Cons.IH remove_row_fields fun_eq_iff)
  next
    case 6 show ?case
      by (auto simp add: Cons.IH remove_row_fields)
  }
qed

lemma filter_keeps_prefix:
  assumes "distinct (map fst rows)"
  shows "filter (\<lambda>(rid, el). rid \<notin> fst ` set (drop n rows)) rows = take n rows"
proof -
  have disj: "fst ` set (take n rows) \<inter> fst ` set (drop n rows) = {}"
    using set_take_disj_set_drop_if_distinct [OF assms, of n n]
    by (simp add: take_map drop_map)
  have a: "filter (\<lambda>(rid, el). rid \<notin> fst ` set (drop n rows)) (take n rows) = take n rows"
    using disj by (force simp add: filter_id_conv)
  have b: "filter (\<lambda>(rid, el). rid \<notin> fst ` set (drop n rows)) (drop n rows) = []"
    by (force simp add: filter_empty_conv)
  have "filter (\<lambda>(rid, el). rid \<notin> fst ` set (drop n rows)) (take n rows @ drop n rows) = take n rows"
    unfolding filter_append a b by simp
  then show ?thesis by simp
qed
subsection \<open>The invariant through the steps of a pass\<close>

lemma in_set_drop_nth:
  "x \<in> set (drop n xs) \<longleftrightarrow> (\<exists>i. n \<le> i \<and> i < length xs \<and> xs ! i = x)"
proof
  assume "x \<in> set (drop n xs)"
  then obtain k where k: "k < length (drop n xs)" "drop n xs ! k = x"
    by (auto simp add: in_set_conv_nth)
  then have "n \<le> n + k \<and> n + k < length xs \<and> xs ! (n + k) = x" by auto
  then show "\<exists>i. n \<le> i \<and> i < length xs \<and> xs ! i = x" by blast
next
  assume "\<exists>i. n \<le> i \<and> i < length xs \<and> xs ! i = x"
  then obtain i where i: "n \<le> i" "i < length xs" "xs ! i = x" by blast
  then have "i - n < length (drop n xs)" "drop n xs ! (i - n) = x" by auto
  then show "x \<in> set (drop n xs)" by (metis nth_mem)
qed

lemma rows_parse_nth:
  assumes "rows_parse styles" "j < length styles"
  shows "tag_closes (expression (styles ! j)) j"
    and "tag_closes (case occurrences (styles ! j) of None \<Rightarrow> [] | Some v \<Rightarrow> v) j"
  using assms by (auto simp add: rows_parse_def list_all_length)

lemma registry_inv_remove_phase:
  fixes n :: nat
  assumes inv: "registry_inv s"
  defines "rows \<equiv> rowsContainer s"
  defines "E \<equiv> (\<lambda>i. if i < length rows then Some (fst (rows ! i)) else None)"
  defines "s1 \<equiv> fold (remove_row n E) [0..<length rows] s"
  shows "rowsContainer s1 = take n rows"
    and "registry_inv s1"
    and "activeColorPickerIndices s1 = activeColorPickerIndices s - {n..<length rows}"
    and "lastStyles s1 = lastStyles s"
    and "\<forall>i<n. colorPickersByRow s1 i = colorPickersByRow s i"
proof -
  from inv have idx: "map (\<lambda>(rid, el). data_row_index el) rows = map int [0..<length rows]"
    and clo: "map (\<lambda>(rid, el). closure_index el) rows = map Some [0..<length rows]"
    and dist: "distinct (map fst rows)"
    and fresh: "\<forall>rid \<in> set (map fst rows). rid < next_element s"
    and reg: "\<forall>i. existingRows s i = (if i < length rows then Some (fst (rows ! i)) else None)"
    and pick: "dom (colorPickersByRow s) = {0..<length rows}"
    by (simp_all add: registry_inv_def rows_def)
  have pred: "(\<exists>j \<in> set [0..<length rows]. n \<le> j \<and> E j = Some rid) \<longleftrightarrow>
      rid \<in> fst ` set (drop n rows)" for rid
  proof
    assume "\<exists>j \<in> set [0..<length rows]. n \<le> j \<and> E j = Some rid"
    then obtain j where j: "j < length rows" "n \<le> j" "fst (rows ! j) = rid"
      by (auto simp add: E_def)
    then have "rows ! j \<in> set (drop n rows)" by (auto simp add: in_set_drop_nth)
    with j(3) show "rid \<in> fst ` set (drop n rows)" by force
  next
    assume "rid \<in> fst ` set (drop n rows)"
    then obtain x where "x \<in> set (drop n rows)" "fst x = rid" by auto
    then obtain j where "n \<le> j" "j < length rows" "rows ! j = x"
      by (auto simp add: in_set_drop_nth)
    with \<open>fst x = rid\<close> show "\<exists>j \<in> set [0..<length rows]. n \<le> j \<and> E j = Some rid"
      by (auto simp add: E_def)
  qed
  show r: "rowsContainer s1 = take n rows"
    unfolding s1_def remove_rows_fields pred rows_def [symmetric]
    using dist by (rule filter_keeps_prefix)
  show "activeColorPickerIndices s1 = activeColorPickerIndices s - {n..<length rows}"
    unfolding s1_def remove_rows_fields by (auto simp add: E_def)
  show "lastStyles s1 = lastStyles s"
    unfolding s1_def remove_rows_fields by simp
  show "\<forall>i<n. colorPickersByRow s1 i = colorPickersByRow s i"
    unfolding s1_def remove_rows_fields by simp
  have e1: "existingRows s1 = (\<lambda>i. if i < min n (length rows) then Some (fst (rows ! i)) else None)"
    unfolding s1_def remove_rows_fields using reg by (auto simp add: E_def fun_eq_iff)
  have p1: "dom (colorPickersByRow s1) = {0..<min n (length rows)}"
  proof -
    have "dom (colorPickersByRow s1) = dom (colorPickersByRow s) - {n..<length rows}"
      unfolding s1_def remove_rows_fields by (auto simp add: E_def dom_def)
    with pick show ?thesis by auto
  qed
  have n1: "next_element s1 = next_element s"
    unfolding s1_def remove_rows_fields by simp
  have tk: "take n [0..<length rows] = [0..<length (take n rows)]"
    by (cases "n \<le> length rows") (simp_all add: min_def)
  show "registry_inv s1"
    unfolding registry_inv_def r n1 e1 p1
  proof (intro conjI)
    have "map (\<lambda>(rid, el). data_row_index el) (take n rows) =
        take n (map (\<lambda>(rid, el). data_row_index el) rows)"
      by (rule take_map [symmetric])
    also have "\<dots> = map int (take n [0..<length rows])"
      unfolding idx by (rule take_map)
    finally show "map (\<lambda>(rid, el). data_row_index el) (take n rows) =
        map int [0..<length (take n rows)]"
      unfolding tk .
    have "map (\<lambda>(rid, el). closure_index el) (take n rows) =
        take n (map (\<lambda>(rid, el). closure_index el) rows)"
      by (rule take_map [symmetric])
    also have "\<dots> = map Some (take n [0..<length rows])"
      unfolding clo by (rule take_map)
    finally show "map (\<lambda>(rid, el). closure_index el) (take n rows) =
        map Some [0..<length (take n rows)]"
      unfolding tk .
    show "distinct (map fst (take n rows))"
      using dist by (simp add: take_map [symmetric])
    show "\<forall>rid \<in> set (map fst (take n rows)). rid < next_element s"
      using fresh by (auto dest: in_set_takeD)
    show "\<forall>i. (if i < min n (length rows) then Some (fst (rows ! i)) else None) =
        (if i < length (take n rows) then Some (fst (take n rows ! i)) else None)"
      by (simp add: min.commute)
    show "{0..<min n (length rows)} = {0..<length (take n rows)}"
      by (simp add: min.commute)
  qed
qed

lemma update_element_nth:
  assumes "distinct (map fst rows)" "i < length rows"
  shows "update_element (fst (rows ! i)) f rows = rows[i := (fst (rows ! i), f (snd (rows ! i)))]"
proof (rule nth_equalityI)
  show "length (update_element (fst (rows ! i)) f rows) =
      length (rows[i := (fst (rows ! i), f (snd (rows ! i)))])"
    by (simp add: update_element_def)
next
  fix j assume "j < length (update_element (fst (rows ! i)) f rows)"
  then have j: "j < length rows" by (simp add: update_element_def)
  have "fst (rows ! j) = fst (rows ! i) \<longleftrightarrow> j = i"
    using assms j nth_eq_iff_index_eq [of "map fst rows" j i] by simp
  then show "update_element (fst (rows ! i)) f rows ! j =
      rows[i := (fst (rows ! i), f (snd (rows ! i)))] ! j"
    using j by (auto simp add: update_element_def nth_list_update split_beta)
qed

lemma updateRowInPlace_fields:
  "activeColorPickerIndices (updateRowInPlace s rid style i) = activeColorPickerIndices s"
  "existingRows (updateRowInPlace s rid style i) = existingRows s"
  "next_element (updateRowInPlace s rid style i) = next_element s"
  "lastStyles (updateRowInPlace s rid style i) = lastStyles s"
  "map fst (rowsContainer (updateRowInPlace s rid style i)) = map fst (rowsContainer s)"
  "colorPickersByRow (updateRowInPlace s rid style i) =
     (case colorPickersByRow s i of
        None \<Rightarrow> colorPickersByRow s
      | Some p \<Rightarrow>
          if i \<notin> activeColorPickerIndices s \<and> getValue p \<noteq> colorValue_of style
          then (colorPickersByRow s)(i \<mapsto> setValue p (colorValue_of style))
          else colorPickersByRow s)"
  by (auto simp add: updateRowInPlace_def Let_def colorValue_of_def update_element_def
      split: option.splits prod.splits)

lemma updateRowInPlace_rows:
  "\<exists>f. (\<forall>el. data_row_index (f el) = int i \<and> closure_index (f el) = closure_index el) \<and>
     rowsContainer (updateRowInPlace s rid style i) = update_element rid f (rowsContainer s)"
proof -
  let ?occ = "case occurrences style of None \<Rightarrow> [] | Some v \<Rightarrow> v"
  let ?f = "\<lambda>el. el\<lparr>data_row_index := int i,
                          tex_value :=
                            (case tex_value el of
                               None \<Rightarrow> None
                             | Some v \<Rightarrow> Some (if v \<noteq> expression style
                                               then text_input_value (expression style)
                                               else v)),
                          occurrence_value :=
                            (case occurrence_value el of
                               None \<Rightarrow> None
                             | Some v \<Rightarrow> Some (if v \<noteq> ?occ
                                               then text_input_value ?occ
                                               else v))\<rparr>"
  have a: "rowsContainer (updateRowInPlace s rid style i) = update_element rid ?f (rowsContainer s)"
    by (simp add: updateRowInPlace_def Let_def split: option.splits)
  show ?thesis by (rule exI [of _ ?f]) (simp add: a)
qed

lemma updateRowInPlace_dom:
  "dom (colorPickersByRow (updateRowInPlace s rid style i)) = dom (colorPickersByRow s)"
  by (auto simp add: updateRowInPlace_fields split: option.splits if_splits)

lemma updateRowInPlace_inv:
  assumes inv: "registry_inv s" and i: "i < length (rowsContainer s)"
  shows "registry_inv (updateRowInPlace s (fst (rowsContainer s ! i)) style i)"
proof -
  let ?rows = "rowsContainer s"
  let ?s' = "updateRowInPlace s (fst (?rows ! i)) style i"
  from inv have idx: "map (\<lambda>(rid, el). data_row_index el) ?rows = map int [0..<length ?rows]"
    and clo: "map (\<lambda>(rid, el). closure_index el) ?rows = map Some [0..<length ?rows]"
    and dist: "distinct (map fst ?rows)"
    and fresh: "\<forall>rid \<in> set (map fst ?rows). rid < next_element s"
    and reg: "\<forall>i. existingRows s i = (if i < length ?rows then Some (fst (?rows ! i)) else None)"
    and pick: "dom (colorPickersByRow s) = {0..<length ?rows}"
    by (simp_all add: registry_inv_def)
  have ids: "map fst (rowsContainer ?s') = map fst ?rows"
    by (rule updateRowInPlace_fields)
  then have len: "length (rowsContainer ?s') = length ?rows"
    using length_map by metis
  have fsts: "fst (rowsContainer ?s' ! j) = fst (?rows ! j)" if "j < length ?rows" for j
    using that ids len by (metis nth_map)
  obtain f where f: "\<And>el. data_row_index (f el) = int i"
    and fc: "\<And>el. closure_index (f el) = closure_index el"
    and rows': "rowsContainer ?s' = update_element (fst (?rows ! i)) f ?rows"
    using updateRowInPlace_rows [where i = i and s = s and rid = "fst (?rows ! i)" and style = style]
    by blast
  have upd: "rowsContainer ?s' = ?rows[i := (fst (?rows ! i), f (snd (?rows ! i)))]"
    unfolding rows' using dist i by (rule update_element_nth)
  then have "map (\<lambda>(rid, el). data_row_index el) (rowsContainer ?s') =
      (map (\<lambda>(rid, el). data_row_index el) ?rows)[i := int i]"
    by (simp add: map_update f)
  also have "\<dots> = map int [0..<length ?rows]"
    unfolding idx using i by (simp add: list_update_same_conv)
  finally have idx': "map (\<lambda>(rid, el). data_row_index el) (rowsContainer ?s') =
      map int [0..<length (rowsContainer ?s')]"
    by (simp add: len)
  from upd have "map (\<lambda>(rid, el). closure_index el) (rowsContainer ?s') =
      (map (\<lambda>(rid, el). closure_index el) ?rows)[i := closure_index (snd (?rows ! i))]"
    by (simp add: map_update fc)
  also have "\<dots> = map (\<lambda>(rid, el). closure_index el) ?rows"
    using i by (simp add: list_update_same_conv split_beta)
  finally have clo': "map (\<lambda>(rid, el). closure_index el) (rowsContainer ?s') =
      map Some [0..<length (rowsContainer ?s')]"
    by (simp add: len clo)
  show ?thesis
    unfolding registry_inv_def
    using idx' clo' dist fresh reg pick
    by (simp add: ids len fsts updateRowInPlace_fields(2,3) updateRowInPlace_dom)
qed

lemma createRow_inv:
  fixes style :: SubExpressionStyle
  assumes inv: "registry_inv s" and i: "i = length (rowsContainer s)"
    and E: "E i = None"
    and p1: "tag_closes (expression style) i"
    and p2: "tag_closes (case occurrences style of None \<Rightarrow> [] | Some v \<Rightarrow> v) i"
  defines "s' \<equiv> fst (update_or_create E style i s)"
  shows "snd (update_or_create E style i s) = None"
    and "registry_inv s'"
    and "length (rowsContainer s') = Suc i"
    and "take i (map fst (rowsContainer s')) = map fst (rowsContainer s)"
    and "activeColorPickerIndices s' = activeColorPickerIndices s"
    and "lastStyles s' = lastStyles s"
proof -
  let ?rows = "rowsContainer s"
  from inv have idx: "map (\<lambda>(rid, el). data_row_index el) ?rows = map int [0..<length ?rows]"
    and clo: "map (\<lambda>(rid, el). closure_index el) ?rows = map Some [0..<length ?rows]"
    and dist: "distinct (map fst ?rows)"
    and fresh: "\<forall>rid \<in> set (map fst ?rows). rid < next_element s"
    and reg: "\<forall>i. existingRows s i = (if i < length ?rows then Some (fst (?rows ! i)) else None)"
    and pick: "dom (colorPickersByRow s) = {0..<length ?rows}"
    by (simp_all add: registry_inv_def)
  show "snd (update_or_create E style i s) = None"
    by (simp add: update_or_create_def createRow_def Let_def E p1 p2)
  obtain el p where
    rows': "rowsContainer s' = ?rows @ [(next_element s, el)]"
    and el: "data_row_index el = int i" "closure_index el = Some i"
    and ex': "existingRows s' = (existingRows s)(i \<mapsto> next_element s)"
    and pk': "colorPickersByRow s' = (colorPickersByRow s)(i \<mapsto> p)"
    and nx': "next_element s' = Suc (next_element s)"
    and ac': "activeColorPickerIndices s' = activeColorPickerIndices s"
    and ls': "lastStyles s' = lastStyles s"
    by (simp add: s'_def update_or_create_def createRow_def Let_def E p1 p2)
  show "length (rowsContainer s') = Suc i" by (simp add: rows' i)
  show "take i (map fst (rowsContainer s')) = map fst ?rows" by (simp add: rows' i)
  show "activeColorPickerIndices s' = activeColorPickerIndices s" by (rule ac')
  show "lastStyles s' = lastStyles s" by (rule ls')
  have nf: "next_element s \<notin> set (map fst ?rows)" using fresh by auto
  show "registry_inv s'"
    unfolding registry_inv_def rows' ex' pk' nx'
  proof (intro conjI)
    show "map (\<lambda>(rid, el). data_row_index el) (?rows @ [(next_element s, el)]) =
        map int [0..<length (?rows @ [(next_element s, el)])]"
      using idx by (simp add: el i)
    show "map (\<lambda>(rid, el). closure_index el) (?rows @ [(next_element s, el)]) =
        map Some [0..<length (?rows @ [(next_element s, el)])]"
      using clo by (simp add: el i)
    show "distinct (map fst (?rows @ [(next_element s, el)]))"
      using dist nf by simp
    show "\<forall>rid \<in> set (map fst (?rows @ [(next_element s, el)])). rid < Suc (next_element s)"
      using fresh by (auto simp add: less_Suc_eq)
    show "\<forall>j. ((existingRows s)(i \<mapsto> next_element s)) j =
        (if j < length (?rows @ [(next_element s, el)])
         then Some (fst ((?rows @ [(next_element s, el)]) ! j)) else None)"
      using reg by (auto simp add: i nth_append)
    show "dom ((colorPickersByRow s)(i \<mapsto> p)) = {0..<length (?rows @ [(next_element s, el)])}"
      using pick by (auto simp add: i)
  qed
qed

lemma update_or_create_step:
  fixes styles :: "SubExpressionStyle list" and x :: SubExpressionStyle
  assumes E: "E = (\<lambda>i. if i < length rows then Some (fst (rows ! i)) else None)"
    and j: "j < n"
    and inv: "registry_inv t"
    and len: "length (rowsContainer t) = max j (min n (length rows))"
    and ids: "take (min n (length rows)) (map fst (rowsContainer t)) = map fst (take n rows)"
    and p1: "tag_closes (expression x) j"
    and p2: "tag_closes (case occurrences x of None \<Rightarrow> [] | Some v \<Rightarrow> v) j"
  defines "t' \<equiv> fst (update_or_create E x j t)"
  shows "snd (update_or_create E x j t) = None"
    and "registry_inv t'"
    and "length (rowsContainer t') = max (Suc j) (min n (length rows))"
    and "take (min n (length rows)) (map fst (rowsContainer t')) = map fst (take n rows)"
    and "activeColorPickerIndices t' = activeColorPickerIndices t"
    and "lastStyles t' = lastStyles t"
proof -
  have "snd (update_or_create E x j t) = None \<and> registry_inv t' \<and>
    length (rowsContainer t') = max (Suc j) (min n (length rows)) \<and>
    take (min n (length rows)) (map fst (rowsContainer t')) = map fst (take n rows) \<and>
    activeColorPickerIndices t' = activeColorPickerIndices t \<and>
    lastStyles t' = lastStyles t"
  proof (cases "j < length rows")
    case True
    with j have jm: "j < min n (length rows)" by simp
    with len have jl: "j < length (rowsContainer t)" by simp
    have "fst (rowsContainer t ! j) = take (min n (length rows)) (map fst (rowsContainer t)) ! j"
      using jm jl by simp
    also have "\<dots> = fst (rows ! j)" unfolding ids using jm by simp
    finally have rid: "fst (rowsContainer t ! j) = fst (rows ! j)" .
    have eq0: "update_or_create E x j t = (updateRowInPlace t (fst (rowsContainer t ! j)) x j, None)"
      using True by (simp add: update_or_create_def E rid)
    then have eq: "t' = updateRowInPlace t (fst (rowsContainer t ! j)) x j"
      by (simp add: t'_def)
    have m: "map fst (rowsContainer t') = map fst (rowsContainer t)"
      unfolding eq by (rule updateRowInPlace_fields)
    then have l: "length (rowsContainer t') = length (rowsContainer t)"
      using length_map by metis
    show ?thesis
      using jm
      by (simp add: m l len ids eq0)
        (simp add: eq updateRowInPlace_inv [OF inv jl] updateRowInPlace_fields)
  next
    case False
    with j have mn: "min n (length rows) = length rows" and mj: "length rows \<le> j" by simp_all
    from len mn mj have jl: "j = length (rowsContainer t)" by simp
    have Ej: "E j = None" using False by (simp add: E)
    note c = createRow_inv [where E = E, OF inv jl Ej p1 p2, folded t'_def]
    have "take (length rows) (map fst (rowsContainer t')) =
        take (length rows) (take j (map fst (rowsContainer t')))"
      using mj by (simp add: min_def)
    also have "\<dots> = take (length rows) (map fst (rowsContainer t))"
      unfolding c(4) ..
    also have "\<dots> = map fst (take n rows)" using ids by (simp add: mn)
    finally have "take (length rows) (map fst (rowsContainer t')) = map fst (take n rows)" .
    then show ?thesis
      using c(1,2,3,5,6) mj by (simp add: mn)
  qed
  then show "snd (update_or_create E x j t) = None"
    and "registry_inv t'"
    and "length (rowsContainer t') = max (Suc j) (min n (length rows))"
    and "take (min n (length rows)) (map fst (rowsContainer t')) = map fst (take n rows)"
    and "activeColorPickerIndices t' = activeColorPickerIndices t"
    and "lastStyles t' = lastStyles t"
    by blast+
qed

lemma render_registry:
  assumes inv: "registry_inv s" and parse: "rows_parse styles"
  shows "snd (render s styles) = None"
    and "registry_inv (fst (render s styles))"
    and "length (rowsContainer (fst (render s styles))) = length styles"
    and "activeColorPickerIndices (fst (render s styles)) =
          activeColorPickerIndices s - {length styles..<length (rowsContainer s)}"
    and "lastStyles (fst (render s styles)) = lastStyles s"
proof -
  define rows where "rows = rowsContainer s"
  define n where "n = length styles"
  define E where "E = (\<lambda>i. if i < length rows then Some (fst (rows ! i)) else None)"
  define s1 where "s1 = fold (remove_row n E) [0..<length rows] s"
  define P where "P = (\<lambda>j t. registry_inv t \<and>
      length (rowsContainer t) = max j (min n (length rows)) \<and>
      take (min n (length rows)) (map fst (rowsContainer t)) = map fst (take n rows) \<and>
      activeColorPickerIndices t = activeColorPickerIndices s1 \<and>
      lastStyles t = lastStyles s1)"
  from inv have idx: "map (\<lambda>(rid, el). data_row_index el) rows = map int [0..<length rows]"
    by (simp add: registry_inv_def rows_def)
  have col: "collect_rows (rowsContainer s) = ([0..<length rows], E)"
    unfolding E_def rows_def [symmetric] using idx by (rule collect_rows_indexed)
  have ren: "render s styles = forEach_index_throw (update_or_create E) styles 0 s1"
    by (simp add: render_def col s1_def n_def)
  note rp = registry_inv_remove_phase [OF inv, of n, folded rows_def, folded E_def, folded s1_def]
  have tk: "take (min n (length rows)) rows = take n rows"
    by (cases "n \<le> length rows") (simp_all add: min_def)
  have P0: "P 0 s1"
    unfolding P_def using rp(1,2) by (simp add: take_map min.commute tk)
  have step: "snd (update_or_create E (styles ! (j - 0)) j t) = None \<and>
      P (Suc j) (fst (update_or_create E (styles ! (j - 0)) j t))"
    if "0 \<le> j" "j < 0 + length styles" "P j t" for j t
  proof -
    from that have j: "j < n" and jl: "j < length styles" by (simp_all add: n_def)
    from that(3) have a: "registry_inv t"
      "length (rowsContainer t) = max j (min n (length rows))"
      "take (min n (length rows)) (map fst (rowsContainer t)) = map fst (take n rows)"
      and b: "activeColorPickerIndices t = activeColorPickerIndices s1"
      "lastStyles t = lastStyles s1"
      by (simp_all add: P_def)
    note u = update_or_create_step [OF E_def j a rows_parse_nth [OF parse jl]]
    show ?thesis unfolding P_def using u b by simp
  qed
  have "snd (forEach_index_throw (update_or_create E) styles 0 s1) = None \<and>
      P (0 + length styles) (fst (forEach_index_throw (update_or_create E) styles 0 s1))"
    using P0 step by (rule forEach_index_throw_invariant)
  then have fin: "P n (fst (render s styles))" and none: "snd (render s styles) = None"
    by (simp_all add: ren n_def)
  show "snd (render s styles) = None" by (rule none)
  show "registry_inv (fst (render s styles))" using fin by (simp add: P_def)
  show "length (rowsContainer (fst (render s styles))) = length styles"
    using fin by (simp add: P_def n_def)
  show "activeColorPickerIndices (fst (render s styles)) =
      activeColorPickerIndices s - {length styles..<length (rowsContainer s)}"
    using fin rp(3) by (simp add: P_def n_def rows_def)
  show "lastStyles (fst (render s styles)) = lastStyles s"
    using fin rp(4) by (simp add: P_def)
qed

lemma registry_inv_bound_to:
  assumes "registry_inv s"
  shows "bound_to s (length (rowsContainer s))"
  using assms by (auto simp add: registry_inv_def bound_to_def dom_def)

lemma registry_inv_initial:
  "registry_inv \<lparr>rowsContainer = [], activeColorPickerIndices = {}, existingRows = Map.empty,
     colorPickersByRow = Map.empty, lastStyles = styles, lastStyles_aliased = al,
     subscribed = su, next_element = k\<rparr>"
  by (simp add: registry_inv_def)

lemma registry_inv_lastStyles [simp]:
  "registry_inv (s\<lparr>lastStyles := xs, lastStyles_aliased := al\<rparr>) = registry_inv s"
  by (simp add: registry_inv_def)

lemma patch_row_registry:
  assumes inv: "registry_inv t" and j: "j < length (rowsContainer t)"
  shows "registry_inv (patch_row old x j t)"
    and "length (rowsContainer (patch_row old x j t)) = length (rowsContainer t)"
    and "lastStyles (patch_row old x j t) = lastStyles t"
proof -
  from inv j have e: "existingRows t j = Some (fst (rowsContainer t ! j))"
    by (simp add: registry_inv_def)
  have m: "map fst (rowsContainer (updateRowInPlace t (fst (rowsContainer t ! j)) x j)) =
      map fst (rowsContainer t)"
    by (rule updateRowInPlace_fields)
  then have l: "length (rowsContainer (updateRowInPlace t (fst (rowsContainer t ! j)) x j)) =
      length (rowsContainer t)"
    using length_map by metis
  show "registry_inv (patch_row old x j t)"
    using inv updateRowInPlace_inv [OF inv j] by (simp add: patch_row_def e)
  show "length (rowsContainer (patch_row old x j t)) = length (rowsContainer t)"
    using l by (simp add: patch_row_def e)
  show "lastStyles (patch_row old x j t) = lastStyles t"
    by (simp add: patch_row_def e updateRowInPlace_fields)
qed

lemma on_state_change_registry:
  assumes inv: "registry_inv s" and sync: "length (lastStyles s) = length (rowsContainer s)"
    and parse: "rows_parse cur"
  shows "snd (on_state_change s cur) = None"
    and "registry_inv (fst (on_state_change s cur))"
    and "length (rowsContainer (fst (on_state_change s cur))) = length cur"
    and "lastStyles (fst (on_state_change s cur)) = cur"
proof -
  have "snd (on_state_change s cur) = None \<and> registry_inv (fst (on_state_change s cur)) \<and>
      length (rowsContainer (fst (on_state_change s cur))) = length cur \<and>
      lastStyles (fst (on_state_change s cur)) = cur"
  proof (cases "length cur = length (lastStyles s)")
    case False
    obtain s' where r: "render s cur = (s', None)"
      using render_registry(1) [OF inv parse] by (cases "render s cur") auto
    from render_registry(2,3) [OF inv parse] r
    have "registry_inv s'" "length (rowsContainer s') = length cur" by simp_all
    then show ?thesis
      using False by (simp add: on_state_change_def r)
  next
    case True
    define P where "P = (\<lambda>(j::nat) t. registry_inv t \<and>
        length (rowsContainer t) = length (rowsContainer s))"
    have "P (0 + length cur) (forEach_index (patch_row (lastStyles s)) cur 0 s)"
    proof (rule forEach_index_invariant)
      show "P 0 s" using inv by (simp add: P_def)
    next
      fix x j t
      assume "0 \<le> j" "j < 0 + length cur" "P j t"
      then have "registry_inv t" "j < length (rowsContainer t)"
        using True sync by (simp_all add: P_def)
      from patch_row_registry(1,2) [OF this] \<open>P j t\<close>
      show "P (Suc j) (patch_row (lastStyles s) x j t)" by (simp add: P_def)
    qed
    then show ?thesis
      using True sync by (simp add: on_state_change_def P_def)
  qed
  then show "snd (on_state_change s cur) = None"
    and "registry_inv (fst (on_state_change s cur))"
    and "length (rowsContainer (fst (on_state_change s cur))) = length cur"
    and "lastStyles (fst (on_state_change s cur)) = cur"
    by simp_all
qed

lemma new_SubExpressionStyles_registry:
  assumes "rows_parse styles"
  shows "snd (new_SubExpressionStyles [] styles) = None"
    and "registry_inv (fst (new_SubExpressionStyles [] styles))"
    and "length (rowsContainer (fst (new_SubExpressionStyles [] styles))) = length styles"
    and "activeColorPickerIndices (fst (new_SubExpressionStyles [] styles)) = {}"
    and "lastStyles (fst (new_SubExpressionStyles [] styles)) = styles"
  unfolding new_SubExpressionStyles_def
  using render_registry [OF registry_inv_initial assms, of styles True True 0] by simp_all

lemma registry_inv_onFocus [simp]: "registry_inv (onFocus i s) = registry_inv s"
  by (simp add: registry_inv_def onFocus_def)

lemma registry_inv_onBlur [simp]: "registry_inv (onBlur i s) = registry_inv s"
  by (simp add: registry_inv_def onBlur_def)

subsection \<open>Patching in place\<close>

lemma patch_row_fields:
  "activeColorPickerIndices (patch_row old x j t) = activeColorPickerIndices t"
  "existingRows (patch_row old x j t) = existingRows t"
  by (simp_all add: patch_row_def updateRowInPlace_fields split: option.splits)

lemma patch_row_picker_other:
  "k \<noteq> j \<Longrightarrow> colorPickersByRow (patch_row old x j t) k = colorPickersByRow t k"
  by (simp add: patch_row_def updateRowInPlace_fields split: option.splits)

lemma patch_row_picker_cong:
  assumes "existingRows t k = None \<longleftrightarrow> existingRows u k = None"
    and "colorPickersByRow t k = colorPickersByRow u k"
    and "activeColorPickerIndices t = activeColorPickerIndices u"
  shows "colorPickersByRow (patch_row old x k t) k = colorPickersByRow (patch_row old x k u) k"
  using assms by (auto simp add: patch_row_def updateRowInPlace_fields split: option.splits)

lemma forEach_patch_row:
  "activeColorPickerIndices (forEach_index (patch_row old) xs i s) = activeColorPickerIndices s \<and>
   existingRows (forEach_index (patch_row old) xs i s) = existingRows s \<and>
   colorPickersByRow (forEach_index (patch_row old) xs i s) k =
     (if i \<le> k \<and> k < i + length xs
      then colorPickersByRow (patch_row old (xs ! (k - i)) k s) k
      else colorPickersByRow s k)"
proof (induction xs arbitrary: i s)
  case Nil
  show ?case by auto
next
  case (Cons x xs)
  let ?s' = "patch_row old x i s"
  note ih = Cons.IH [of "Suc i" ?s']
  show ?case
  proof (intro conjI)
    show "activeColorPickerIndices (forEach_index (patch_row old) (x # xs) i s) =
        activeColorPickerIndices s"
      using ih by (simp add: patch_row_fields)
    show "existingRows (forEach_index (patch_row old) (x # xs) i s) = existingRows s"
      using ih by (simp add: patch_row_fields)
    show "colorPickersByRow (forEach_index (patch_row old) (x # xs) i s) k =
     (if i \<le> k \<and> k < i + length (x # xs)
      then colorPickersByRow (patch_row old ((x # xs) ! (k - i)) k s) k
      else colorPickersByRow s k)"
    proof (cases "k = i")
      case True
      then show ?thesis using ih by simp
    next
      case False
      have c: "colorPickersByRow (patch_row old y k ?s') k = colorPickersByRow (patch_row old y k s) k"
        for y
        by (rule patch_row_picker_cong)
          (simp_all add: patch_row_fields patch_row_picker_other [OF False])
      show ?thesis
      proof (cases "Suc i \<le> k \<and> k < Suc i + length xs")
        case True
        then have "(x # xs) ! (k - i) = xs ! (k - Suc i)"
          by (simp add: nth_Cons split: nat.splits) (metis Suc_diff_Suc Suc_le_lessD nat.inject)
        with True show ?thesis using ih by (simp add: c)
      next
        case False
        with \<open>k \<noteq> i\<close> show ?thesis
          using ih by (auto simp add: patch_row_picker_other)
      qed
    qed
  qed
qed

lemma onFocus_fields:
  "activeColorPickerIndices (onFocus i s) = insert i (activeColorPickerIndices s)"
  "lastStyles (onFocus i s) = lastStyles s"
  "rowsContainer (onFocus i s) = rowsContainer s"
  "colorPickersByRow (onFocus i s) = colorPickersByRow s"
  "existingRows (onFocus i s) = existingRows s"
  by (simp_all add: onFocus_def)

subsection \<open>Every picker of the registry has an opacity field\<close>

lemma opacity_setValue [simp]:
  "opacityInput_value (setValue p v) = None \<longleftrightarrow> opacityInput_value p = None"
  by (simp add: setValue_def Let_def split: option.splits)

lemma opacity_picker_step [simp]:
  "opacityInput_value (picker_step p e) = None \<longleftrightarrow> opacityInput_value p = None"
  by (cases e)
    (auto simp add: onHexInput_def onHexChange_def onPickerChange_def onOpacityInput_def
      onOpacityChange_def emitChange_def Let_def split: option.splits)

lemma opacity_new [simp]: "opacityInput_value (new_ColorPicker v (Some True)) \<noteq> None"
  by (simp add: new_ColorPicker_def)

lemma opacity_Some [simp]:
  "(\<exists>y. opacityInput_value (setValue p v) = Some y) \<longleftrightarrow> (\<exists>y. opacityInput_value p = Some y)"
  "(\<exists>y. opacityInput_value (picker_step p e) = Some y) \<longleftrightarrow> (\<exists>y. opacityInput_value p = Some y)"
  "\<exists>y. opacityInput_value (new_ColorPicker v (Some True)) = Some y"
  using opacity_setValue [of p v] opacity_picker_step [of p e] opacity_new [of v]
  by (simp_all only: not_None_eq [symmetric]) simp_all

lemma with_opacity_lastStyles [simp]:
  "with_opacity (s\<lparr>lastStyles := xs, lastStyles_aliased := al\<rparr>) = with_opacity s"
  "with_opacity (s\<lparr>lastStyles := xs\<rparr>) = with_opacity s"
  "with_opacity (s\<lparr>rowsContainer := rows\<rparr>) = with_opacity s"
  "with_opacity (onFocus i s) = with_opacity s"
  "with_opacity (onBlur i s) = with_opacity s"
  by (simp_all add: with_opacity_def onFocus_def onBlur_def)

lemma with_opacity_remove_rows:
  "with_opacity s \<Longrightarrow> with_opacity (fold (remove_row n E) xs s)"
  by (auto simp add: with_opacity_def remove_rows_fields split: if_splits)

lemma with_opacity_updateRowInPlace:
  "with_opacity s \<Longrightarrow> with_opacity (updateRowInPlace s rid style i)"
  by (auto simp add: with_opacity_def updateRowInPlace_fields split: option.splits if_splits)

lemma with_opacity_update_or_create:
  assumes "with_opacity s"
  shows "with_opacity (fst (update_or_create E x j s))"
proof (cases "E j")
  case (Some rid)
  then show ?thesis
    using assms by (simp add: update_or_create_def with_opacity_updateRowInPlace)
next
  case None
  then show ?thesis
    using assms
    by (auto simp add: update_or_create_def createRow_def Let_def with_opacity_def
        split: if_splits)
qed

lemma forEach_index_throw_preserves:
  assumes "P s" and "\<And>x j t. P t \<Longrightarrow> P (fst (f x j t))"
  shows "P (fst (forEach_index_throw f xs i s))"
  using assms(1)
proof (induction xs arbitrary: i s)
  case Nil
  then show ?case by simp
next
  case (Cons x xs)
  obtain s' r where f: "f x i s = (s', r)" by (cases "f x i s")
  have "P s'" using assms(2) [OF Cons.prems, of x i] by (simp add: f)
  then show ?case
    using Cons.IH [of s' "Suc i"] by (cases r) (simp_all add: f)
qed

lemma forEach_index_preserves:
  assumes "P s" and "\<And>x j t. P t \<Longrightarrow> P (f x j t)"
  shows "P (forEach_index f xs i s)"
  using assms(1) by (induction xs arbitrary: i s) (simp_all add: assms(2))

lemma with_opacity_render:
  assumes "with_opacity s"
  shows "with_opacity (fst (render s styles))"
proof -
  obtain cri E where c: "collect_rows (rowsContainer s) = (cri, E)"
    by (cases "collect_rows (rowsContainer s)")
  have "with_opacity (fst (forEach_index_throw (update_or_create E) styles 0
      (fold (remove_row (length styles) E) cri s)))"
    by (rule forEach_index_throw_preserves)
      (simp_all add: with_opacity_remove_rows assms with_opacity_update_or_create)
  then show ?thesis by (simp add: render_def c)
qed

lemma with_opacity_patch_row:
  "with_opacity t \<Longrightarrow> with_opacity (patch_row old x j t)"
  by (simp add: patch_row_def with_opacity_updateRowInPlace split: option.splits)

lemma with_opacity_on_state_change:
  assumes "with_opacity s"
  shows "with_opacity (fst (on_state_change s cur))"
proof (cases "length cur = length (lastStyles s)")
  case True
  have "with_opacity (forEach_index (patch_row (lastStyles s)) cur 0 s)"
    by (rule forEach_index_preserves) (simp_all add: assms with_opacity_patch_row)
  then show ?thesis using True by (simp add: on_state_change_def)
next
  case False
  obtain s' r where r: "render s cur = (s', r)" by (cases "render s cur")
  have "with_opacity s'" using with_opacity_render [OF assms, of cur] by (simp add: r)
  then show ?thesis using False by (cases r) (simp_all add: on_state_change_def r)
qed

lemma ui_step_PickerEdit:
  "ui_step s (PickerEdit rid e) = s \<or>
   (\<exists>i p. colorPickersByRow s i = Some p \<and>
      ui_step s (PickerEdit rid e) =
        s\<lparr>colorPickersByRow := (colorPickersByRow s)(i \<mapsto> picker_step p e)\<rparr>)"
proof (cases "listener_index s rid")
  case None
  then show ?thesis by simp
next
  case (Some i)
  show ?thesis
  proof (cases "colorPickersByRow s i")
    case None
    then show ?thesis by (simp add: Some)
  next
    case p: (Some p)
    have "ui_step s (PickerEdit rid e) = s \<or> ui_step s (PickerEdit rid e) =
        s\<lparr>colorPickersByRow := (colorPickersByRow s)(i \<mapsto> picker_step p e)\<rparr>"
      by (cases e) (simp_all add: Some p)
    with p show ?thesis by blast
  qed
qed

lemma with_opacity_step:
  assumes "with_opacity s"
  shows "with_opacity (ui_step s e)"
proof (cases e)
  case (StateChange cur)
  then show ?thesis using assms by (simp add: with_opacity_on_state_change)
next
  case (StoreMutation xs)
  then show ?thesis using assms by simp
next
  case (Render xs)
  then show ?thesis using assms by (simp add: with_opacity_render)
next
  case Destroy
  then show ?thesis by (simp add: destroy_def with_opacity_def)
next
  case (Focus rid)
  then show ?thesis using assms by (simp split: option.splits)
next
  case (Blur rid)
  then show ?thesis using assms by (simp split: option.splits)
next
  case (PickerEdit rid e')
  have "with_opacity (s\<lparr>colorPickersByRow := (colorPickersByRow s)(i \<mapsto> picker_step p e')\<rparr>)"
    if "colorPickersByRow s i = Some p" for i p
    using assms that by (auto simp add: with_opacity_def)
  then show ?thesis
    using assms ui_step_PickerEdit [of s rid e'] by (auto simp add: PickerEdit)
next
  case (TexEdit rid t)
  then show ?thesis using assms by simp
next
  case (OccurrenceEdit rid t)
  then show ?thesis using assms by simp
qed

lemma with_opacity_foldl: "with_opacity s \<Longrightarrow> with_opacity (foldl ui_step s evs)"
  by (induction evs arbitrary: s) (simp_all add: with_opacity_step)

lemma with_opacity_run: "with_opacity (ui_run found initial evs)"
proof -
  have "with_opacity \<lparr>rowsContainer = rows, activeColorPickerIndices = {},
      existingRows = Map.empty, colorPickersByRow = Map.empty, lastStyles = initial,
      lastStyles_aliased = True, subscribed = True, next_element = k\<rparr>" for rows k
    by (simp add: with_opacity_def)
  then have "with_opacity (fst (new_SubExpressionStyles found initial))"
    unfolding new_SubExpressionStyles_def by (rule with_opacity_render)
  then show ?thesis unfolding ui_run_def by (rule with_opacity_foldl)
qed

subsection \<open>Every regular run keeps the invariant\<close>

lemma update_element_keeps:
  assumes "\<And>el. data_row_index (f el) = data_row_index el"
    and "\<And>el. closure_index (f el) = closure_index el"
  shows "map (\<lambda>(rid, el). data_row_index el) (update_element row f rows) =
      map (\<lambda>(rid, el). data_row_index el) rows"
    and "map (\<lambda>(rid, el). closure_index el) (update_element row f rows) =
      map (\<lambda>(rid, el). closure_index el) rows"
    and "map fst (update_element row f rows) = map fst rows"
  using assms by (auto simp add: update_element_def)

lemma registry_inv_update_element:
  assumes "registry_inv s" and "\<And>el. data_row_index (f el) = data_row_index el"
    and "\<And>el. closure_index (f el) = closure_index el"
  shows "registry_inv (s\<lparr>rowsContainer := update_element row f (rowsContainer s)\<rparr>)"
proof -
  note k = update_element_keeps [of f row "rowsContainer s", OF assms(2,3)]
  have l: "length (update_element row f (rowsContainer s)) = length (rowsContainer s)"
    by (simp add: update_element_def)
  have n: "fst (update_element row f (rowsContainer s) ! j) = fst (rowsContainer s ! j)"
    if "j < length (rowsContainer s)" for j
    using that k(3) l by (metis nth_map)
  show ?thesis
    using assms(1) unfolding registry_inv_def by (simp add: k l n)
qed

lemma listener_index_bound:
  assumes "registry_inv s" "listener_index s rid = Some i"
  shows "i < length (rowsContainer s)"
proof -
  let ?rows = "rowsContainer s"
  from assms(2) obtain el where el: "map_of ?rows rid = Some el" "closure_index el = Some i"
    by (auto simp add: listener_index_def split: option.splits)
  from el(1) have "(rid, el) \<in> set ?rows" by (rule map_of_SomeD)
  then obtain k where k: "k < length ?rows" "?rows ! k = (rid, el)"
    by (auto simp add: in_set_conv_nth)
  from assms(1) have "map (\<lambda>(rid, el). closure_index el) ?rows = map Some [0..<length ?rows]"
    by (simp add: registry_inv_def)
  then have "map (\<lambda>(rid, el). closure_index el) ?rows ! k = map Some [0..<length ?rows] ! k"
    by simp
  with k have "closure_index el = Some k" by simp
  with el(2) k(1) show ?thesis by simp
qed

lemma on_state_change_active:
  assumes "registry_inv s" "length (lastStyles s) = length (rowsContainer s)" "rows_parse cur"
  shows "activeColorPickerIndices (fst (on_state_change s cur)) =
    activeColorPickerIndices s - {length cur..<length (rowsContainer s)}"
proof (cases "length cur = length (lastStyles s)")
  case True
  then show ?thesis
    using assms(2) forEach_patch_row [of "lastStyles s" cur 0 s 0]
    by (simp add: on_state_change_def)
next
  case False
  obtain s' where r: "render s cur = (s', None)"
    using render_registry(1) [OF assms(1,3)] by (cases "render s cur") auto
  from render_registry(4) [OF assms(1,3)] r
  have "activeColorPickerIndices s' =
      activeColorPickerIndices s - {length cur..<length (rowsContainer s)}"
    by simp
  then show ?thesis using False by (simp add: on_state_change_def r)
qed

lemma consistent_step:
  assumes "consistent s" "regular_event e"
  shows "consistent (ui_step s e)"
proof (cases e)
  case (StateChange cur)
  from assms have inv: "registry_inv s" and sync: "length (lastStyles s) = length (rowsContainer s)"
    and act: "activeColorPickerIndices s \<subseteq> {0..<length (rowsContainer s)}"
    and parse: "rows_parse cur"
    by (simp_all add: consistent_def StateChange)
  note o = on_state_change_registry [OF inv sync parse]
  have "activeColorPickerIndices (fst (on_state_change s cur)) \<subseteq> {0..<length cur}"
    unfolding on_state_change_active [OF inv sync parse] using act by auto
  then show ?thesis using assms(1) by (simp add: StateChange consistent_def o)
next
  case (StoreMutation xs)
  then show ?thesis using assms by simp
next
  case (Render xs)
  then show ?thesis using assms by simp
next
  case Destroy
  then show ?thesis using assms by simp
next
  case (Focus rid)
  from assms(1) have inv: "registry_inv s" by (simp add: consistent_def)
  show ?thesis
    using assms(1) listener_index_bound [OF inv, of rid]
    by (auto simp add: Focus consistent_def onFocus_fields split: option.splits)
next
  case (Blur rid)
  then show ?thesis
    using assms(1) by (auto simp add: consistent_def onBlur_def registry_inv_def split: option.splits)
next
  case (PickerEdit rid e')
  have "consistent (s\<lparr>colorPickersByRow := (colorPickersByRow s)(i \<mapsto> q)\<rparr>)"
    if "colorPickersByRow s i = Some p" for i p q
    using assms(1) that by (auto simp add: consistent_def registry_inv_def)
  then show ?thesis
    using assms(1) ui_step_PickerEdit [of s rid e'] by (auto simp add: PickerEdit)
next
  case (TexEdit rid t)
  have "registry_inv (s\<lparr>rowsContainer := update_element rid
      (\<lambda>el. el\<lparr>tex_value := map_option (\<lambda>v. text_input_value t) (tex_value el)\<rparr>)
      (rowsContainer s)\<rparr>)"
    using assms(1) by (intro registry_inv_update_element) (simp_all add: consistent_def)
  then show ?thesis
    using assms(1) by (auto simp add: TexEdit consistent_def update_element_def)
next
  case (OccurrenceEdit rid t)
  have "registry_inv (s\<lparr>rowsContainer := update_element rid
      (\<lambda>el. el\<lparr>occurrence_value := map_option (\<lambda>v. text_input_value t) (occurrence_value el)\<rparr>)
      (rowsContainer s)\<rparr>)"
    using assms(1) by (intro registry_inv_update_element) (simp_all add: consistent_def)
  then show ?thesis
    using assms(1) by (auto simp add: OccurrenceEdit consistent_def update_element_def)
qed

lemma consistent_foldl:
  "consistent s \<Longrightarrow> list_all regular_event evs \<Longrightarrow> consistent (foldl ui_step s evs)"
  by (induction evs arbitrary: s) (simp_all add: consistent_step)

lemma consistent_run:
  assumes "rows_parse initial" "list_all regular_event evs"
  shows "consistent (ui_run [] initial evs)"
  unfolding ui_run_def
  using assms(2)
  by (intro consistent_foldl) (simp_all add: consistent_def new_SubExpressionStyles_registry [OF assms(1)])

text \<open>
  C9 (amended). Take a component that is constructed on a container without row elements,
  in a run where \<open>render\<close> and \<open>destroy\<close> are called by the component alone, where the
  store hands a new array to every state and leaves the old one as it is, and where the
  row template of every style is read as a complete row. Then no pass throws, and after
  every reconciliation pass over a list of \<open>n\<close> styles the row registry and the registry
  of colour pickers each hold exactly the keys \<open>0, ..., n - 1\<close>, and the container holds
  exactly one row for each of them, in this order. This holds for the first render of
  the constructor, for every state the component reaches afterwards (with \<open>n\<close> the
  length of the list the listener saw last), for a notification of the store in such a
  state (a change of length, which renders, or a patch in place), and for a \<open>render\<close>
  pass in such a state. The indices of the rows that a pass destroys leave the
  active-edit set.
\<close>

theorem registry_binding_invariant:
  assumes "rows_parse initial" and "list_all regular_event evs" and "rows_parse styles"
  shows
  "snd (new_SubExpressionStyles [] initial) = None \<and>
   bound_to (fst (new_SubExpressionStyles [] initial)) (length initial) \<and>
   bound_to (ui_run [] initial evs) (length (lastStyles (ui_run [] initial evs))) \<and>
   snd (on_state_change (ui_run [] initial evs) styles) = None \<and>
   bound_to (fst (on_state_change (ui_run [] initial evs) styles)) (length styles) \<and>
   activeColorPickerIndices (fst (on_state_change (ui_run [] initial evs) styles)) =
     activeColorPickerIndices (ui_run [] initial evs) \<inter> {0..<length styles} \<and>
   snd (render (ui_run [] initial evs) styles) = None \<and>
   bound_to (fst (render (ui_run [] initial evs) styles)) (length styles) \<and>
   activeColorPickerIndices (fst (render (ui_run [] initial evs) styles)) =
     activeColorPickerIndices (ui_run [] initial evs) \<inter> {0..<length styles}"
proof -
  let ?S = "ui_run [] initial evs"
  have c: "consistent ?S" using assms(1,2) by (rule consistent_run)
  then have inv: "registry_inv ?S" and sync: "length (lastStyles ?S) = length (rowsContainer ?S)"
    and act: "activeColorPickerIndices ?S \<subseteq> {0..<length (rowsContainer ?S)}"
    by (simp_all add: consistent_def)
  note n = new_SubExpressionStyles_registry [OF assms(1)]
  have 0: "snd (new_SubExpressionStyles [] initial) = None" by (rule n)
  have 1: "bound_to (fst (new_SubExpressionStyles [] initial)) (length initial)"
    using registry_inv_bound_to [OF n(2)] by (simp add: n)
  have 2: "bound_to ?S (length (lastStyles ?S))"
    using registry_inv_bound_to [OF inv] by (simp add: sync)
  note o = on_state_change_registry [OF inv sync assms(3)]
  have 3: "bound_to (fst (on_state_change ?S styles)) (length styles)"
    using registry_inv_bound_to [OF o(2)] by (simp add: o(3))
  have 4: "activeColorPickerIndices (fst (on_state_change ?S styles)) =
      activeColorPickerIndices ?S \<inter> {0..<length styles}"
    unfolding on_state_change_active [OF inv sync assms(3)] using act by auto
  note r = render_registry [OF inv assms(3)]
  have 5: "bound_to (fst (render ?S styles)) (length styles)"
    using registry_inv_bound_to [OF r(2)] by (simp add: r(3))
  have 6: "activeColorPickerIndices (fst (render ?S styles)) =
      activeColorPickerIndices ?S \<inter> {0..<length styles}"
    unfolding r(4) using act by auto
  from 0 1 2 o(1) 3 4 r(1) 5 6 show ?thesis by blast
qed

lemma rows_parse_examples:
  "rows_parse [\<lparr>expression = ''x'', color = ''#f00'', occurrences = None\<rparr>,
               \<lparr>expression = ''y'', color = ''#0f0'', occurrences = Some ''2''\<rparr>]"
  "rows_parse [\<lparr>expression = ''x'', color = ''#f00'', occurrences = None\<rparr>]"
  by code_simp+

theorem registry_binding_invariant_witness:
  "snd (on_state_change
        (ui_run []
          [\<lparr>expression = ''x'', color = ''#f00'', occurrences = None\<rparr>,
           \<lparr>expression = ''y'', color = ''#0f0'', occurrences = Some ''2''\<rparr>]
          [Focus 1, PickerEdit 1 (HexInput ''00f'')])
        [\<lparr>expression = ''x'', color = ''#f00'', occurrences = None\<rparr>]) = None \<and>
   bound_to
     (fst (on_state_change
        (ui_run []
          [\<lparr>expression = ''x'', color = ''#f00'', occurrences = None\<rparr>,
           \<lparr>expression = ''y'', color = ''#0f0'', occurrences = Some ''2''\<rparr>]
          [Focus 1, PickerEdit 1 (HexInput ''00f'')])
        [\<lparr>expression = ''x'', color = ''#f00'', occurrences = None\<rparr>])) 1 \<and>
   activeColorPickerIndices
     (fst (on_state_change
        (ui_run []
          [\<lparr>expression = ''x'', color = ''#f00'', occurrences = None\<rparr>,
           \<lparr>expression = ''y'', color = ''#0f0'', occurrences = Some ''2''\<rparr>]
          [Focus 1, PickerEdit 1 (HexInput ''00f'')])
        [\<lparr>expression = ''x'', color = ''#f00'', occurrences = None\<rparr>])) \<subseteq> {0}"
  using registry_binding_invariant
      [of "[\<lparr>expression = ''x'', color = ''#f00'', occurrences = None\<rparr>,
            \<lparr>expression = ''y'', color = ''#0f0'', occurrences = Some ''2''\<rparr>]"
        "[Focus 1, PickerEdit 1 (HexInput ''00f'')]"
        "[\<lparr>expression = ''x'', color = ''#f00'', occurrences = None\<rparr>]"]
  by (auto simp add: rows_parse_examples)

theorem registry_binding_invariant_counterexample:
  "snd (new_SubExpressionStyles
     [\<lparr>data_row_index = 0, tex_value = Some ''a'', occurrence_value = Some [],
       closure_index = None\<rparr>]
     [\<lparr>expression = ''x'', color = ''#f00'', occurrences = None\<rparr>]) = None \<and>
   map fst (rowsContainer (fst (new_SubExpressionStyles
     [\<lparr>data_row_index = 0, tex_value = Some ''a'', occurrence_value = Some [],
       closure_index = None\<rparr>]
     [\<lparr>expression = ''x'', color = ''#f00'', occurrences = None\<rparr>]))) = [0] \<and>
   existingRows (fst (new_SubExpressionStyles
     [\<lparr>data_row_index = 0, tex_value = Some ''a'', occurrence_value = Some [],
       closure_index = None\<rparr>]
     [\<lparr>expression = ''x'', color = ''#f00'', occurrences = None\<rparr>])) 0 = None \<and>
   colorPickersByRow (fst (new_SubExpressionStyles
     [\<lparr>data_row_index = 0, tex_value = Some ''a'', occurrence_value = Some [],
       closure_index = None\<rparr>]
     [\<lparr>expression = ''x'', color = ''#f00'', occurrences = None\<rparr>])) 0 = None \<and>
   lastStyles (ui_run [] [\<lparr>expression = ''x'', color = ''#f00'', occurrences = None\<rparr>]
     [Render [], StateChange [\<lparr>expression = ''y'', color = ''#f00'', occurrences = None\<rparr>]])
     = [\<lparr>expression = ''y'', color = ''#f00'', occurrences = None\<rparr>] \<and>
   rowsContainer (ui_run [] [\<lparr>expression = ''x'', color = ''#f00'', occurrences = None\<rparr>]
     [Render [], StateChange [\<lparr>expression = ''y'', color = ''#f00'', occurrences = None\<rparr>]])
     = [] \<and>
   existingRows (ui_run [] [\<lparr>expression = ''x'', color = ''#f00'', occurrences = None\<rparr>]
     [Render [], StateChange [\<lparr>expression = ''y'', color = ''#f00'', occurrences = None\<rparr>]]) 0
     = None \<and>
   colorPickersByRow (ui_run [] [\<lparr>expression = ''x'', color = ''#f00'', occurrences = None\<rparr>]
     [Render [], StateChange [\<lparr>expression = ''y'', color = ''#f00'', occurrences = None\<rparr>]]) 0
     = None"
  by code_simp

text \<open>
  A row template that is not read as a complete row: for the expression \<open>" x='\<close> the
  first pass throws before anything is registered; for the same text as occurrences it
  throws after the picker was registered, and the row is in neither the registry nor the
  container.
\<close>

lemma createRow_throws_example:
  "snd (new_SubExpressionStyles []
     [\<lparr>expression = [dq] @ '' x='' @ [CHR 0x27], color = ''#f00'', occurrences = None\<rparr>])
     = Some TypeError"
  "colorPickersByRow (fst (new_SubExpressionStyles []
     [\<lparr>expression = [dq] @ '' x='' @ [CHR 0x27], color = ''#f00'', occurrences = None\<rparr>])) 0
     = None"
  "snd (new_SubExpressionStyles []
     [\<lparr>expression = ''x'', color = ''#f00'', occurrences = Some ([dq] @ '' x='' @ [CHR 0x27])\<rparr>])
     = Some TypeError"
  "colorPickersByRow (fst (new_SubExpressionStyles []
     [\<lparr>expression = ''x'', color = ''#f00'', occurrences = Some ([dq] @ '' x='' @ [CHR 0x27])\<rparr>])) 0
     \<noteq> None"
  "existingRows (fst (new_SubExpressionStyles []
     [\<lparr>expression = ''x'', color = ''#f00'', occurrences = Some ([dq] @ '' x='' @ [CHR 0x27])\<rparr>])) 0
     = None"
  "rowsContainer (fst (new_SubExpressionStyles []
     [\<lparr>expression = ''x'', color = ''#f00'', occurrences = Some ([dq] @ '' x='' @ [CHR 0x27])\<rparr>]))
     = []"
  by code_simp+

text \<open>
  The array that the constructor read is changed in place before the first notification:
  the listener compares the new list with itself, and no row is made for the new style.
\<close>

lemma aliased_lastStyles_example:
  "rowsContainer (ui_run [] []
     [StoreMutation [\<lparr>expression = ''x'', color = ''#f00'', occurrences = None\<rparr>],
      StateChange [\<lparr>expression = ''x'', color = ''#f00'', occurrences = None\<rparr>]]) = []"
  "rowsContainer (ui_run [] []
     [StateChange [\<lparr>expression = ''x'', color = ''#f00'', occurrences = None\<rparr>]]) \<noteq> []"
  by code_simp+

subsection \<open>The guard for rows that are being edited\<close>

lemma patch_same_length:
  assumes "length cur = length (lastStyles s)" "j < length cur"
  shows "colorPickersByRow (fst (on_state_change s cur)) j =
     colorPickersByRow (patch_row (lastStyles s) (cur ! j) j s) j"
  using assms forEach_patch_row [of "lastStyles s" cur 0 s j]
  by (simp add: on_state_change_def)

lemma patch_same_length_outside:
  assumes "length cur = length (lastStyles s)" "\<not> j < length cur"
  shows "colorPickersByRow (fst (on_state_change s cur)) j = colorPickersByRow s j"
  using assms forEach_patch_row [of "lastStyles s" cur 0 s j]
  by (simp add: on_state_change_def)

lemma colorValue_of_numeric:
  assumes "numeric_color (if color style = [] then ''#5DA6F7FF'' else color style)"
  shows "\<exists>x. colorValue_of style = toHex8 x \<and> pc_r (parseColorWithAlpha x) \<noteq> NaN \<and>
    pc_g (parseColorWithAlpha x) \<noteq> NaN \<and> pc_b (parseColorWithAlpha x) \<noteq> NaN \<and>
    pc_a (parseColorWithAlpha x) \<noteq> NaN"
  using assms unfolding numeric_color_def colorValue_of_def by blast

lemma setValue_shows:
  assumes "numeric_color (if color style = [] then ''#5DA6F7FF'' else color style)"
    and "opacityInput_value p \<noteq> None"
  shows "picker_shows (setValue p (colorValue_of style)) (colorValue_of style)"
    and "getValue (setValue p (colorValue_of style)) = colorValue_of style \<longleftrightarrow>
      toHex (whole_percent (pc_a (parseColorWithAlpha (colorValue_of style)))) =
      toHex (pc_a (parseColorWithAlpha (colorValue_of style)))"
proof -
  obtain x where x: "colorValue_of style = toHex8 x" "pc_r (parseColorWithAlpha x) \<noteq> NaN"
    "pc_g (parseColorWithAlpha x) \<noteq> NaN" "pc_b (parseColorWithAlpha x) \<noteq> NaN"
    "pc_a (parseColorWithAlpha x) \<noteq> NaN"
    using colorValue_of_numeric [OF assms(1)] by blast
  note g = getValue_setValue_numeric [OF x(2,3,4,5) assms(2), folded x(1)]
  show "picker_shows (setValue p (colorValue_of style)) (colorValue_of style)"
    unfolding picker_shows_def using g(1,2,3) by blast
  show "getValue (setValue p (colorValue_of style)) = colorValue_of style \<longleftrightarrow>
      toHex (whole_percent (pc_a (parseColorWithAlpha (colorValue_of style)))) =
      toHex (pc_a (parseColorWithAlpha (colorValue_of style)))"
    by (rule g(4))
qed

lemma registered_in_regular_runs:
  assumes "rows_parse initial" "list_all regular_event evs"
    and "j < length (lastStyles (ui_run [] initial evs))"
  shows "existingRows (ui_run [] initial evs) j \<noteq> None"
    and "\<exists>p. colorPickersByRow (ui_run [] initial evs) j = Some p \<and> opacityInput_value p \<noteq> None"
proof -
  let ?S = "ui_run [] initial evs"
  have c: "consistent ?S" using assms(1,2) by (rule consistent_run)
  then have inv: "registry_inv ?S" and sync: "length (lastStyles ?S) = length (rowsContainer ?S)"
    by (simp_all add: consistent_def)
  from inv assms(3) sync show "existingRows ?S j \<noteq> None"
    by (simp add: registry_inv_def)
  from inv assms(3) sync have "j \<in> dom (colorPickersByRow ?S)"
    by (simp add: registry_inv_def)
  then obtain p where p: "colorPickersByRow ?S j = Some p" by auto
  have "with_opacity ?S" by (rule with_opacity_run)
  with p have "opacityInput_value p \<noteq> None" unfolding with_opacity_def by blast
  with p show "\<exists>p. colorPickersByRow ?S j = Some p \<and> opacityInput_value p \<noteq> None" by blast
qed

text \<open>
  C1 (amended). Take any state of the component and a notification whose list of styles
  is as long as the list that the listener saw last. The colour picker of every row in
  the active-edit set is left exactly as it was, whatever the incoming colour. For a row
  \<open>j\<close> that is not in the active-edit set, whose colour changed, for which a row and a
  picker with an opacity field are registered, and whose new colour parses to numbers:
  when the picker already reads the normalised hex8 form of the new colour, it is left as
  it was; otherwise it is set from that value, so that its hex field holds the six
  digits of that value, its opacity field holds the alpha in whole percent, and
  \<open>getValue\<close> reads that value with the alpha rounded to a whole percentage. The picker
  then reads exactly the new value if and only if it read it before or the alpha byte
  survives the rounding to whole percent. In a run as for C9, a row and a picker with an
  opacity field are registered for every index below the length of the list last seen.
\<close>

theorem active_edit_guard:
  assumes "length cur = length (lastStyles s)"
  shows
  "(\<forall>i \<in> activeColorPickerIndices s.
      colorPickersByRow (fst (on_state_change s cur)) i = colorPickersByRow s i) \<and>
   (\<forall>j p. j < length cur \<and> j \<notin> activeColorPickerIndices s \<and>
      color (cur ! j) \<noteq> color (lastStyles s ! j) \<and>
      existingRows s j \<noteq> None \<and> colorPickersByRow s j = Some p \<and>
      opacityInput_value p \<noteq> None \<and>
      numeric_color (if color (cur ! j) = [] then ''#5DA6F7FF'' else color (cur ! j)) \<longrightarrow>
      (\<exists>p'. colorPickersByRow (fst (on_state_change s cur)) j = Some p' \<and>
         (getValue p = colorValue_of (cur ! j) \<and> p' = p \<or>
          getValue p \<noteq> colorValue_of (cur ! j) \<and> p' = setValue p (colorValue_of (cur ! j)) \<and>
          picker_shows p' (colorValue_of (cur ! j))) \<and>
         (getValue p' = colorValue_of (cur ! j) \<longleftrightarrow>
            getValue p = colorValue_of (cur ! j) \<or>
            toHex (whole_percent (pc_a (parseColorWithAlpha (colorValue_of (cur ! j))))) =
            toHex (pc_a (parseColorWithAlpha (colorValue_of (cur ! j))))))) \<and>
   (rows_parse initial \<and> list_all regular_event evs \<longrightarrow>
      (\<forall>j < length (lastStyles (ui_run [] initial evs)).
         existingRows (ui_run [] initial evs) j \<noteq> None \<and>
         (\<exists>p. colorPickersByRow (ui_run [] initial evs) j = Some p \<and>
              opacityInput_value p \<noteq> None)))"
proof (intro conjI ballI allI impI)
  fix i assume i: "i \<in> activeColorPickerIndices s"
  have "colorPickersByRow (patch_row (lastStyles s) y i s) i = colorPickersByRow s i" for y
    using i by (simp add: patch_row_def updateRowInPlace_fields split: option.splits)
  then show "colorPickersByRow (fst (on_state_change s cur)) i = colorPickersByRow s i"
    using patch_same_length [OF assms, of i] patch_same_length_outside [OF assms, of i]
    by (cases "i < length cur") simp_all
next
  fix j p
  let ?cv = "colorValue_of (cur ! j)"
  assume h: "j < length cur \<and> j \<notin> activeColorPickerIndices s \<and>
      color (cur ! j) \<noteq> color (lastStyles s ! j) \<and>
      existingRows s j \<noteq> None \<and> colorPickersByRow s j = Some p \<and>
      opacityInput_value p \<noteq> None \<and>
      numeric_color (if color (cur ! j) = [] then ''#5DA6F7FF'' else color (cur ! j))"
  then have j: "j < length cur" and jl: "j < length (lastStyles s)"
    and na: "j \<notin> activeColorPickerIndices s"
    and ne: "lastStyles s ! j \<noteq> cur ! j"
    and p: "colorPickersByRow s j = Some p"
    and op: "opacityInput_value p \<noteq> None"
    and num: "numeric_color (if color (cur ! j) = [] then ''#5DA6F7FF'' else color (cur ! j))"
    using assms by auto
  from h obtain row where e: "existingRows s j = Some row" by auto
  have "colorPickersByRow (patch_row (lastStyles s) (cur ! j) j s) j =
      Some (if getValue p = ?cv then p else setValue p ?cv)"
    using na jl ne by (simp add: patch_row_def e updateRowInPlace_fields p)
  then have r: "colorPickersByRow (fst (on_state_change s cur)) j =
      Some (if getValue p = ?cv then p else setValue p ?cv)"
    using patch_same_length [OF assms j] by simp
  note sv = setValue_shows [OF num op]
  show "\<exists>p'. colorPickersByRow (fst (on_state_change s cur)) j = Some p' \<and>
         (getValue p = ?cv \<and> p' = p \<or>
          getValue p \<noteq> ?cv \<and> p' = setValue p ?cv \<and> picker_shows p' ?cv) \<and>
         (getValue p' = ?cv \<longleftrightarrow>
            getValue p = ?cv \<or>
            toHex (whole_percent (pc_a (parseColorWithAlpha ?cv))) =
            toHex (pc_a (parseColorWithAlpha ?cv)))"
  proof (cases "getValue p = ?cv")
    case True
    then show ?thesis using r by simp
  next
    case False
    then show ?thesis using r sv by simp
  qed
next
  fix j
  assume "rows_parse initial \<and> list_all regular_event evs"
    and "j < length (lastStyles (ui_run [] initial evs))"
  then show "existingRows (ui_run [] initial evs) j \<noteq> None"
    and "\<exists>p. colorPickersByRow (ui_run [] initial evs) j = Some p \<and> opacityInput_value p \<noteq> None"
    using registered_in_regular_runs [of initial evs j] by blast+
qed

lemma guard_example:
  "lastStyles (ui_run []
     [\<lparr>expression = ''x'', color = ''#f00'', occurrences = None\<rparr>,
      \<lparr>expression = ''y'', color = ''#0f0'', occurrences = None\<rparr>] [Focus 0]) =
     [\<lparr>expression = ''x'', color = ''#f00'', occurrences = None\<rparr>,
      \<lparr>expression = ''y'', color = ''#0f0'', occurrences = None\<rparr>]"
  "0 \<in> activeColorPickerIndices (ui_run []
     [\<lparr>expression = ''x'', color = ''#f00'', occurrences = None\<rparr>,
      \<lparr>expression = ''y'', color = ''#0f0'', occurrences = None\<rparr>] [Focus 0])"
  "1 \<notin> activeColorPickerIndices (ui_run []
     [\<lparr>expression = ''x'', color = ''#f00'', occurrences = None\<rparr>,
      \<lparr>expression = ''y'', color = ''#0f0'', occurrences = None\<rparr>] [Focus 0])"
  "existingRows (ui_run []
     [\<lparr>expression = ''x'', color = ''#f00'', occurrences = None\<rparr>,
      \<lparr>expression = ''y'', color = ''#0f0'', occurrences = None\<rparr>] [Focus 0]) 1 = Some 1"
  "colorPickersByRow (ui_run []
     [\<lparr>expression = ''x'', color = ''#f00'', occurrences = None\<rparr>,
      \<lparr>expression = ''y'', color = ''#0f0'', occurrences = None\<rparr>] [Focus 0]) 1 =
     Some \<lparr>options_value = ''#00FF00FF'', pickerInput_value = ''#00ff00'',
           hexInput_value = ''00FF00'', opacityInput_value = Some ''100''\<rparr>"
  "getValue \<lparr>options_value = ''#00FF00FF'', pickerInput_value = ''#00ff00'',
           hexInput_value = ''00FF00'', opacityInput_value = Some ''100''\<rparr> = ''#00FF00FF''"
  "numeric_color ''#0000ff80''"
  "colorValue_of \<lparr>expression = ''y'', color = ''#0000ff80'', occurrences = None\<rparr> = ''#0000FF80''"
  "substring ''#0000FF80'' 1 7 = ''0000FF''"
  "Number_toString (Math_round (times (pc_a (parseColorWithAlpha ''#0000FF80'')) 100)) 10 = ''50''"
  "rgbaToHex8 (pc_r (parseColorWithAlpha ''#0000FF80'')) (pc_g (parseColorWithAlpha ''#0000FF80''))
     (pc_b (parseColorWithAlpha ''#0000FF80''))
     (whole_percent (pc_a (parseColorWithAlpha ''#0000FF80''))) = ''#0000FF80''"
  by code_simp+

theorem active_edit_guard_witness:
  "colorPickersByRow
     (fst (on_state_change
       (ui_run []
         [\<lparr>expression = ''x'', color = ''#f00'', occurrences = None\<rparr>,
          \<lparr>expression = ''y'', color = ''#0f0'', occurrences = None\<rparr>] [Focus 0])
       [\<lparr>expression = ''x'', color = ''#00f'', occurrences = None\<rparr>,
        \<lparr>expression = ''y'', color = ''#0000ff80'', occurrences = None\<rparr>])) 0 =
   colorPickersByRow
     (ui_run []
         [\<lparr>expression = ''x'', color = ''#f00'', occurrences = None\<rparr>,
          \<lparr>expression = ''y'', color = ''#0f0'', occurrences = None\<rparr>] [Focus 0]) 0 \<and>
   (\<exists>p'. colorPickersByRow
          (fst (on_state_change
            (ui_run []
              [\<lparr>expression = ''x'', color = ''#f00'', occurrences = None\<rparr>,
               \<lparr>expression = ''y'', color = ''#0f0'', occurrences = None\<rparr>] [Focus 0])
            [\<lparr>expression = ''x'', color = ''#00f'', occurrences = None\<rparr>,
             \<lparr>expression = ''y'', color = ''#0000ff80'', occurrences = None\<rparr>])) 1 = Some p' \<and>
        hexInput_value p' = ''0000FF'' \<and> opacityInput_value p' = Some ''50'' \<and>
        getValue p' = ''#0000FF80'')"
proof -
  let ?old = "[\<lparr>expression = ''x'', color = ''#f00'', occurrences = None\<rparr>,
          \<lparr>expression = ''y'', color = ''#0f0'', occurrences = None\<rparr>]"
  let ?cur = "[\<lparr>expression = ''x'', color = ''#00f'', occurrences = None\<rparr>,
        \<lparr>expression = ''y'', color = ''#0000ff80'', occurrences = None\<rparr>]"
  let ?S = "ui_run [] ?old [Focus 0]"
  let ?p = "\<lparr>options_value = ''#00FF00FF'', pickerInput_value = ''#00ff00'',
           hexInput_value = ''00FF00'', opacityInput_value = Some ''100''\<rparr>"
  let ?cv = "''#0000FF80''"
  have h: "length ?cur = length (lastStyles ?S)" by (simp add: guard_example(1))
  note g = active_edit_guard [OF h]
  from g have "\<forall>i \<in> activeColorPickerIndices ?S.
      colorPickersByRow (fst (on_state_change ?S ?cur)) i = colorPickersByRow ?S i"
    by (rule conjunct1)
  from this guard_example(2)
  have g1: "colorPickersByRow (fst (on_state_change ?S ?cur)) 0 = colorPickersByRow ?S 0"
    by (rule bspec)
  have pre: "1 < length ?cur \<and> 1 \<notin> activeColorPickerIndices ?S \<and>
      color (?cur ! 1) \<noteq> color (lastStyles ?S ! 1) \<and>
      existingRows ?S 1 \<noteq> None \<and> colorPickersByRow ?S 1 = Some ?p \<and>
      opacityInput_value ?p \<noteq> None \<and>
      numeric_color (if color (?cur ! 1) = [] then ''#5DA6F7FF'' else color (?cur ! 1))"
  proof (intro conjI)
    show "1 < length ?cur" by simp
    show "1 \<notin> activeColorPickerIndices ?S" by (rule guard_example(3))
    show "color (?cur ! 1) \<noteq> color (lastStyles ?S ! 1)"
      unfolding guard_example(1) by simp
    show "existingRows ?S 1 \<noteq> None" unfolding guard_example(4) by simp
    show "colorPickersByRow ?S 1 = Some ?p" by (rule guard_example(5))
    show "opacityInput_value ?p \<noteq> None" by simp
    show "numeric_color (if color (?cur ! 1) = [] then ''#5DA6F7FF'' else color (?cur ! 1))"
      using guard_example(7) by simp
  qed
  from g have "\<forall>j p. j < length ?cur \<and> j \<notin> activeColorPickerIndices ?S \<and>
      color (?cur ! j) \<noteq> color (lastStyles ?S ! j) \<and>
      existingRows ?S j \<noteq> None \<and> colorPickersByRow ?S j = Some p \<and>
      opacityInput_value p \<noteq> None \<and>
      numeric_color (if color (?cur ! j) = [] then ''#5DA6F7FF'' else color (?cur ! j)) \<longrightarrow>
      (\<exists>p'. colorPickersByRow (fst (on_state_change ?S ?cur)) j = Some p' \<and>
         (getValue p = colorValue_of (?cur ! j) \<and> p' = p \<or>
          getValue p \<noteq> colorValue_of (?cur ! j) \<and> p' = setValue p (colorValue_of (?cur ! j)) \<and>
          picker_shows p' (colorValue_of (?cur ! j))) \<and>
         (getValue p' = colorValue_of (?cur ! j) \<longleftrightarrow>
            getValue p = colorValue_of (?cur ! j) \<or>
            toHex (whole_percent (pc_a (parseColorWithAlpha (colorValue_of (?cur ! j))))) =
            toHex (pc_a (parseColorWithAlpha (colorValue_of (?cur ! j))))))"
    by blast
  with pre obtain p' where p': "colorPickersByRow (fst (on_state_change ?S ?cur)) 1 = Some p'"
    "getValue ?p = colorValue_of (?cur ! 1) \<and> p' = ?p \<or>
     getValue ?p \<noteq> colorValue_of (?cur ! 1) \<and> p' = setValue ?p (colorValue_of (?cur ! 1)) \<and>
     picker_shows p' (colorValue_of (?cur ! 1))"
    by blast
  have cv: "colorValue_of (?cur ! 1) = ?cv" by (simp add: guard_example(8))
  have "getValue ?p \<noteq> ?cv" by (simp add: guard_example(6))
  with p'(2) have "picker_shows p' ?cv" unfolding cv by blast
  then have "hexInput_value p' = ''0000FF'' \<and> opacityInput_value p' = Some ''50'' \<and>
      getValue p' = ''#0000FF80''"
    unfolding picker_shows_def by (simp only: guard_example(9,10,11))
  with g1 p'(1) show ?thesis by blast
qed

theorem active_edit_guard_counterexample:
  "lastStyles (ui_run [] [\<lparr>expression = ''x'', color = ''#000000FF'', occurrences = None\<rparr>] []) =
     [\<lparr>expression = ''x'', color = ''#000000FF'', occurrences = None\<rparr>] \<and>
   0 \<notin> activeColorPickerIndices
     (ui_run [] [\<lparr>expression = ''x'', color = ''#000000FF'', occurrences = None\<rparr>] []) \<and>
   colorValue_of \<lparr>expression = ''x'', color = ''#00000001'', occurrences = None\<rparr> = ''#00000001'' \<and>
   map_option getValue (colorPickersByRow
     (ui_run [] [\<lparr>expression = ''x'', color = ''#000000FF'', occurrences = None\<rparr>] []) 0) =
     Some ''#000000FF'' \<and>
   map_option getValue (colorPickersByRow
     (fst (on_state_change
       (ui_run [] [\<lparr>expression = ''x'', color = ''#000000FF'', occurrences = None\<rparr>] [])
       [\<lparr>expression = ''x'', color = ''#00000001'', occurrences = None\<rparr>])) 0) =
     Some ''#00000000''"
  by code_simp

end
